theory Spec2Isabelle
  imports Main
begin

text \<open>
  A model of the thread pool of threadpool.h and threadpool.cpp. The members of the C++
  classes keep their names without the trailing underscore (\<open>taskQue_\<close> is \<open>taskQue\<close>,
  \<open>cast_\<close> is \<open>cast\<close>), which an Isabelle name cannot end in.
\<close>

section \<open>The value container \<open>Any\<close> (threadpool.h, lines 21-74)\<close>

text \<open>
  \<open>Any\<close> owns a pointer \<open>base_\<close> to a \<open>Derive<T>\<close> object that stores one value of type
  \<open>T\<close>. The C++ type \<open>T\<close> is kept as its name; the payload is one of the values that occur
  in the repository (the \<open>uLong\<close> sums of the example, the \<open>const char*\<close> literal of
  \<open>Result::get\<close>) or an \<open>int\<close>. A null \<open>base_\<close> is \<open>None\<close>.
\<close>

type_synonym cpp_type = string

datatype payload = IntV int | ULongV nat | CStrV string

datatype Derive = Derive (T: cpp_type) (data: payload)

datatype Any = Any (base: "Derive option")

text \<open>What a C++ \<open>throw\<close> carries: here always a C string.\<close>

datatype exn = Throw string

text \<open>\<open>Any(T data)\<close>, line 41: \<open>base_\<close> points to a fresh \<open>Derive<T>\<close> holding \<open>data\<close>.\<close>

definition Any_of :: "cpp_type \<Rightarrow> payload \<Rightarrow> Any" where
  "Any_of ty d = Any (Some (Derive ty d))"

text \<open>
  \<open>cast_<T>()\<close>, lines 45-55. The \<open>dynamic_cast\<close> to \<open>Derive<T>*\<close> yields a null pointer
  when \<open>base_\<close> is null or points to a \<open>Derive<U>\<close> with \<open>U\<close> another type (no class derives
  from \<open>Derive<T>\<close>); then the string is thrown.
\<close>

definition cast :: "cpp_type \<Rightarrow> Any \<Rightarrow> exn + payload" where
  "cast ty a =
     (case base a of
        None \<Rightarrow> Inl (Throw ''type is unmatch!'')
      | Some pd \<Rightarrow> if T pd = ty then Inr (data pd) else Inl (Throw ''type is unmatch!''))"

section \<open>Semaphore (threadpool.h, lines 77-106)\<close>

record Semaphore =
  resLimit :: int

text \<open>
  \<open>acquire_\<close> waits on \<open>cond_\<close> until \<open>resLimit_ > 0\<close> and then decrements. \<open>None\<close> is the
  caller staying blocked in the wait: nothing but a later \<open>release_\<close> lets it go on.
\<close>

definition acquire :: "Semaphore \<Rightarrow> Semaphore option" where
  "acquire sm = (if resLimit sm > 0 then Some (sm\<lparr>resLimit := resLimit sm - 1\<rparr>) else None)"

definition release :: "Semaphore \<Rightarrow> Semaphore" where
  "release sm = sm\<lparr>resLimit := resLimit sm + 1\<rparr>"

section \<open>Result and Task (threadpool.h, lines 111-146; threadpool.cpp, lines 293-332)\<close>

text \<open>
  Task and Result objects live in two heaps, lists indexed by address. A
  \<open>shared_ptr<Task>\<close> is \<open>Some\<close> address or \<open>None\<close> (null); the \<open>Result*\<close> held by a task
  likewise. The virtual \<open>run()\<close> of a task is given by its outcome: the value it returns or
  the exception it throws.
\<close>

type_synonym task_ptr = "nat option"

record Task =
  run :: "exn + Any"
  result :: "nat option"

record Result =
  any :: Any
  sem :: Semaphore
  task :: task_ptr
  isValid :: bool

text \<open>
  \<open>Result::Result(task, isValid)\<close>, lines 310-315, building the object at address \<open>this\<close>:
  \<open>task->setResult(this)\<close> dereferences \<open>task\<close>, so a null \<open>task\<close> has no defined outcome
  (\<open>None\<close>).
\<close>

definition Result_ctor :: "task_ptr \<Rightarrow> bool \<Rightarrow> nat \<Rightarrow> Task list \<Rightarrow> (Result \<times> Task list) option" where
  "Result_ctor tp valid this ts =
     (case tp of
        None \<Rightarrow> None
      | Some a \<Rightarrow>
          if a < length ts
          then Some (\<lparr>any = Any None, sem = \<lparr>resLimit = 0\<rparr>, task = tp, isValid = valid\<rparr>,
                     ts[a := (ts ! a)\<lparr>result := Some this\<rparr>])
          else None)"

text \<open>\<open>Result::setVal\<close>, lines 318-324.\<close>

definition setVal :: "Any \<Rightarrow> Result \<Rightarrow> Result" where
  "setVal a r = r\<lparr>any := a, sem := release (sem r)\<rparr>"

text \<open>
  \<open>Result::get\<close>, lines 327-332. An invalid Result returns \<open>Any("")\<close> at once. Otherwise
  the semaphore is acquired (\<open>None\<close>: the caller is blocked there) and \<open>any_\<close> is moved
  out, which leaves its \<open>base_\<close> null.
\<close>

definition get :: "Result \<Rightarrow> (Any \<times> Result) option" where
  "get r =
     (if \<not> isValid r then Some (Any_of ''const char*'' (CStrV ''''), r)
      else case acquire (sem r) of
             None \<Rightarrow> None
           | Some sm \<Rightarrow> Some (any r, r\<lparr>sem := sm, any := Any None\<rparr>))"

text \<open>
  \<open>Task::exec\<close>, lines 297-302: with a Result bound, \<open>run()\<close> is called and its value
  published; an exception of \<open>run()\<close> leaves \<open>exec\<close> (there is no handler) before \<open>setVal\<close>
  is called. \<open>Inl\<close> is the exception leaving \<open>exec\<close>. Results are not destroyed here,
  so that the Result a task points to is in the heap.
\<close>

definition exec :: "Task \<Rightarrow> Result list \<Rightarrow> exn + Result list" where
  "exec t rs =
     (case result t of
        None \<Rightarrow> Inr rs
      | Some r \<Rightarrow>
          (case run t of
             Inl e \<Rightarrow> Inl e
           | Inr v \<Rightarrow> Inr (rs[r := setVal v (rs ! r)])))"

section \<open>The pool object (threadpool.h, lines 194-248; threadpool.cpp, lines 8-66)\<close>

datatype PoolMode = MODE_FIXED | MODE_CACHED

definition TASK_MAX_THRESHOLD :: int where "TASK_MAX_THRESHOLD = 1024"
definition THREAD_MAX_THRESHOLD :: int where "THREAD_MAX_THRESHOLD = 100"
definition THREAD_MAX_IDLE_TIME :: int where "THREAD_MAX_IDLE_TIME = 10"

text \<open>
  The conversions the comparisons of the source apply to an \<open>int\<close>: to \<open>size_t\<close> (64 bits)
  against \<open>taskQue_.size()\<close>, \<open>initThreadSize_\<close> and \<open>threadSizeThreshold_\<close>, and to
  \<open>unsigned\<close> (32 bits) against the \<open>atomic_uint\<close> \<open>taskSize_\<close>. A negative \<open>int\<close>
  becomes a huge unsigned number.
\<close>

definition size_t_of_int :: "int \<Rightarrow> nat" where
  "size_t_of_int i = nat (i mod 2 ^ 64)"

definition unsigned_of_int :: "int \<Rightarrow> nat" where
  "unsigned_of_int i = nat (i mod 2 ^ 32)"

definition is_int :: "int \<Rightarrow> bool" where
  "is_int i \<longleftrightarrow> - (2 ^ 31) \<le> i \<and> i < 2 ^ 31"

text \<open>
  \<open>threads_\<close> is an \<open>unordered_map\<close> from thread id to the \<open>Thread\<close> object of that id (the
  key is always the object's \<open>getId()\<close>, lines 101-102 and 132-133), so it is kept as the
  list of its keys. The \<open>size_t\<close> members are naturals. The \<open>atomic_int\<close> counters
  \<open>idleThreadSize_\<close> and \<open>curThreadSize_\<close> go up and down by one with the threads of
  the pool, of which a process has far fewer than \<open>2 ^ 31\<close>: they are integers without
  a bound, and so is the static \<open>generatedId_\<close>. The \<open>atomic_uint\<close> \<open>taskSize_\<close>
  wraps at \<open>2 ^ 32\<close>.
\<close>

record ThreadPool =
  threads :: "int list"
  initThreadSize :: nat
  idleThreadSize :: int
  curThreadSize :: int
  threadSizeThreshold :: nat
  taskQue :: "task_ptr list"
  taskSize :: nat
  taskQueMaxThreshold :: int
  poolMode :: PoolMode
  isPoolRunning :: bool

text \<open>\<open>unordered_map::emplace\<close> keeps an entry that is already there; \<open>erase\<close> by key.\<close>

definition emplace :: "int \<Rightarrow> int list \<Rightarrow> int list" where
  "emplace k m = (if k \<in> set m then m else m @ [k])"

definition erase :: "int \<Rightarrow> int list \<Rightarrow> int list" where
  "erase k m = filter (\<lambda>j. j \<noteq> k) m"

text \<open>The constructor, lines 14-23.\<close>

definition ThreadPool_ctor :: ThreadPool where
  "ThreadPool_ctor =
     \<lparr>threads = [], initThreadSize = 4, idleThreadSize = 0, curThreadSize = 0,
      threadSizeThreshold = size_t_of_int THREAD_MAX_THRESHOLD, taskQue = [], taskSize = 0,
      taskQueMaxThreshold = TASK_MAX_THRESHOLD, poolMode = MODE_FIXED, isPoolRunning = False\<rparr>"

text \<open>Lines 259-262, 47-51, 54-58 and 61-66.\<close>

definition checkRunningState :: "ThreadPool \<Rightarrow> bool" where
  "checkRunningState p = isPoolRunning p"

definition setMode :: "PoolMode \<Rightarrow> ThreadPool \<Rightarrow> ThreadPool" where
  "setMode m p = (if checkRunningState p then p else p\<lparr>poolMode := m\<rparr>)"

definition setTaskQueMaxThreshold :: "int \<Rightarrow> ThreadPool \<Rightarrow> ThreadPool" where
  "setTaskQueMaxThreshold threshold p =
     (if checkRunningState p then p else p\<lparr>taskQueMaxThreshold := threshold\<rparr>)"

definition setThreadSizeThreshold :: "int \<Rightarrow> ThreadPool \<Rightarrow> ThreadPool" where
  "setThreadSizeThreshold threshold p =
     (if checkRunningState p then p
      else if poolMode p = MODE_CACHED then p\<lparr>threadSizeThreshold := size_t_of_int threshold\<rparr>
      else p)"

section \<open>The blocks of \<open>submitTask\<close>, \<open>start\<close> and \<open>threadFunc\<close> that run without a wait\<close>

text \<open>The three condition variables of the pool.\<close>

datatype cond = NotFull | NotEmpty | ExitCond

text \<open>The predicate of the \<open>wait_for\<close> of \<open>submitTask\<close>, line 78.\<close>

definition notFull_pred :: "ThreadPool \<Rightarrow> bool" where
  "notFull_pred p \<longleftrightarrow> length (taskQue p) < size_t_of_int (taskQueMaxThreshold p)"

text \<open>
  Lines 94-96: whether \<open>submitTask\<close> creates a thread. \<open>taskSize_ > idleThreadSize_\<close>
  compares an \<open>unsigned\<close> with an \<open>int\<close>, \<open>curThreadSize_ < threadSizeThreshold_\<close> an
  \<open>int\<close> with a \<open>size_t\<close>.
\<close>

definition spawn_cond :: "ThreadPool \<Rightarrow> bool" where
  "spawn_cond p \<longleftrightarrow>
     poolMode p = MODE_CACHED
     \<and> unsigned_of_int (idleThreadSize p) < taskSize p
     \<and> size_t_of_int (curThreadSize p) < threadSizeThreshold p"

text \<open>
  Lines 86-108 of \<open>submitTask\<close>, entered with the mutex held and the queue below its
  threshold. \<open>gid\<close> is the static \<open>Thread::generatedId_\<close>. The result is the pool, the
  new \<open>generatedId_\<close>, the id of the thread that was created and started, if one was,
  and the condition variables notified.
\<close>

definition submitTask_enqueue ::
  "task_ptr \<Rightarrow> ThreadPool \<Rightarrow> int \<Rightarrow> ThreadPool \<times> int \<times> int option \<times> cond list" where
  "submitTask_enqueue tp p gid =
     (let p1 = p\<lparr>taskQue := taskQue p @ [tp], taskSize := (taskSize p + 1) mod 2 ^ 32\<rparr>
      in if spawn_cond p1
         then (p1\<lparr>threads := emplace gid (threads p1),
                  curThreadSize := curThreadSize p1 + 1,
                  idleThreadSize := idleThreadSize p1 + 1\<rparr>,
               gid + 1, Some gid, [NotEmpty])
         else (p1, gid, None, [NotEmpty]))"

text \<open>
  \<open>start\<close>, lines 118-141. The first loop builds \<open>initThreadSize\<close> \<open>Thread\<close> objects, with
  the ids \<open>gid, gid + 1, ...\<close>, and puts them in \<open>threads_\<close>; the second starts
  \<open>threads_[0]\<close>, ..., \<open>threads_[initThreadSize - 1]\<close>. \<open>threads_[i]\<close> of a key that is
  not there inserts a null pointer, which \<open>->start()\<close> then dereferences: \<open>None\<close>. A
  negative argument makes \<open>initThreadSize_\<close> a \<open>size_t\<close> that the \<open>int\<close> loop counter
  never reaches: \<open>None\<close> as well. Otherwise the result is the pool, the new
  \<open>generatedId_\<close> and the ids the new threads run \<open>threadFunc\<close> with, in the order of
  their start.
\<close>

definition start :: "int \<Rightarrow> ThreadPool \<Rightarrow> int \<Rightarrow> (ThreadPool \<times> int \<times> int list) option" where
  "start n p gid =
     (if n < 0 then None
      else
        let p1 = p\<lparr>isPoolRunning := True, initThreadSize := size_t_of_int n, curThreadSize := n\<rparr>;
            p2 = p1\<lparr>threads := fold emplace (map (\<lambda>i. gid + int i) [0..<nat n]) (threads p1)\<rparr>;
            started = map int [0..<nat n]
        in if list_all (\<lambda>i. i \<in> set (threads p2)) started
           then Some (p2\<lparr>idleThreadSize := idleThreadSize p2 + n\<rparr>, gid + n, started)
           else None)"

text \<open>
  Lines 222-237 of \<open>threadFunc\<close>, taken when the loop of line 165 finds the queue not
  empty: the task at the front, the pool, and the condition variables notified. \<open>None\<close>
  on an empty queue, where the source is not at these lines.
\<close>

definition take_task :: "ThreadPool \<Rightarrow> (task_ptr \<times> ThreadPool \<times> cond list) option" where
  "take_task p =
     (case taskQue p of
        [] \<Rightarrow> None
      | tp # q \<Rightarrow>
          Some (tp,
                p\<lparr>idleThreadSize := idleThreadSize p - 1, taskQue := q,
                  taskSize := (taskSize p + 2 ^ 32 - 1) mod 2 ^ 32\<rparr>,
                (if q \<noteq> [] then [NotEmpty] else []) @ [NotFull]))"

text \<open>Lines 170-173 of \<open>threadFunc\<close>: the exit of a thread that finds the pool not running.\<close>

definition exit_not_running :: "int \<Rightarrow> ThreadPool \<Rightarrow> ThreadPool \<times> cond list" where
  "exit_not_running threadId p = (p\<lparr>threads := erase threadId (threads p)\<rparr>, [ExitCond])"

text \<open>
  Lines 182-196 of \<open>threadFunc\<close>, after a \<open>wait_for\<close> that returned \<open>timeout\<close>. The clock
  counts nanoseconds; \<open>duration_cast<seconds>\<close> truncates. \<open>Some\<close> is the thread leaving
  (line 195) with the pool and the condition variables it notified, \<open>None\<close> the thread
  going on with the loop of line 165.
\<close>

definition idle_seconds :: "nat \<Rightarrow> nat \<Rightarrow> int" where
  "idle_seconds now lastTime = int ((now - lastTime) div 1000000000)"

definition exit_idle :: "int \<Rightarrow> nat \<Rightarrow> nat \<Rightarrow> ThreadPool \<Rightarrow> (ThreadPool \<times> cond list) option" where
  "exit_idle threadId now lastTime p =
     (if idle_seconds now lastTime \<ge> THREAD_MAX_IDLE_TIME
         \<and> initThreadSize p < size_t_of_int (curThreadSize p)
      then Some (p\<lparr>threads := erase threadId (threads p),
                   curThreadSize := curThreadSize p - 1,
                   idleThreadSize := idleThreadSize p - 1\<rparr>, [])
      else None)"

section \<open>The threads of the process\<close>

text \<open>
  The process has the thread that owns the pool (it configures the pool, starts it,
  submits tasks, reads results and at last destroys the pool, one call after the other,
  as \<open>main\<close> of the example does) and the threads that run \<open>threadFunc\<close>. Each thread
  is at a place of its code, and the threads take their steps in any order. A step is
  a stretch of code that a thread runs with the mutex \<open>taskQueMtx_\<close> held, or that
  touches of the shared state one atomic only (lines 28 and 249). A thread in a \<open>wait\<close>
  of a condition variable does not hold the mutex; once notified (or woken by its
  timer, or spuriously) it has to take the mutex again before the \<open>wait\<close> returns. A
  \<open>wait_for\<close> returns \<open>timeout\<close> when its deadline has passed by then, whatever woke
  the thread. The clock moves between the steps.
\<close>

datatype thread = Owner | Worker nat

text \<open>
  The places of \<open>threadFunc\<close>: before line 146; at line 155, about to lock; at the test of
  line 165, of line 168, of line 176 (these three with the mutex held); blocked in the
  \<open>wait_for\<close> of line 180 (with its deadline) or the \<open>wait\<close> of line 202; woken from either
  and about to lock again; at line 241 with the task taken; at line 249; returned.
\<close>

datatype worker_pc =
    W_begin | W_lock | W_while | W_ifrun | W_mode
  | W_wait_for nat | W_wait | W_woken_for nat | W_woken
  | W_exec task_ptr | W_done | W_exited

record worker =
  threadId :: int
  pc :: worker_pc
  lastTime :: nat

text \<open>
  The places of the owner: between two calls; in \<open>submitTask\<close>, blocked in the \<open>wait_for\<close>
  of line 77 (with the task and the deadline) or woken from it; in the destructor at
  line 41 (the flag is written), at line 42 and at the predicate of line 43 (both with
  the mutex held), blocked in the \<open>wait\<close> of line 43 or woken from it, and returned.
\<close>

datatype owner_pc =
    U_idle
  | S_wait task_ptr nat | S_woken task_ptr nat
  | D_lock | D_notify | D_pred | D_wait | D_woken | D_returned

text \<open>
  The state of the process. \<open>started\<close>, \<open>accepted\<close> and \<open>taken\<close> are history: whether
  \<open>start\<close> has been called, and the tasks put into the queue and taken from it, in
  order. A process that has been terminated (an exception that nothing catches, a null
  pointer dereferenced) is \<open>aborted\<close> and makes no further step.
\<close>

record system =
  pool :: ThreadPool
  generatedId :: int
  taskQueMtx :: "thread option"
  workers :: "worker list"
  owner :: owner_pc
  tasks :: "Task list"
  results :: "Result list"
  now :: nat
  aborted :: bool
  started :: bool
  accepted :: "task_ptr list"
  taken :: "task_ptr list"

definition init :: system where
  "init = \<lparr>pool = ThreadPool_ctor, generatedId = 0, taskQueMtx = None, workers = [],
           owner = U_idle, tasks = [], results = [], now = 0, aborted = False,
           started = False, accepted = [], taken = []\<rparr>"

definition second :: nat where "second = 1000000000"

definition new_worker :: "int \<Rightarrow> worker" where
  "new_worker i = \<lparr>threadId = i, pc = W_begin, lastTime = 0\<rparr>"

text \<open>
  The termination of the process. What its memory holds then is of no further interest:
  it is left as it was before the step.
\<close>

definition abort :: "system \<Rightarrow> system" where
  "abort s = s\<lparr>aborted := True\<rparr>"

subsection \<open>Condition variables\<close>

fun notified :: "worker_pc \<Rightarrow> worker_pc" where
  "notified (W_wait_for dl) = W_woken_for dl"
| "notified W_wait = W_woken"
| "notified c = c"

fun owner_notified :: "cond \<Rightarrow> owner_pc \<Rightarrow> owner_pc" where
  "owner_notified NotFull (S_wait tp dl) = S_woken tp dl"
| "owner_notified ExitCond D_wait = D_woken"
| "owner_notified c u = u"

text \<open>
  \<open>notify_all\<close>: the workers wait on \<open>notEmpty_\<close>, the owner on \<open>notFull_\<close> (in
  \<open>submitTask\<close>) and on \<open>exitCond_\<close> (in the destructor).
\<close>

definition wake :: "worker \<Rightarrow> worker" where
  "wake w = w\<lparr>pc := notified (pc w)\<rparr>"

fun notify_all :: "cond \<Rightarrow> system \<Rightarrow> system" where
  "notify_all NotEmpty s = s\<lparr>workers := map wake (workers s)\<rparr>"
| "notify_all c s = s\<lparr>owner := owner_notified c (owner s)\<rparr>"

subsection \<open>The owner\<close>

text \<open>Lines 85-114 of \<open>submitTask\<close>, up to the release of the mutex at the return.\<close>

definition submitTask_accept :: "task_ptr \<Rightarrow> system \<Rightarrow> system" where
  "submitTask_accept tp s =
     (case submitTask_enqueue tp (pool s) (generatedId s) of
        (p, gid, spawned, sigs) \<Rightarrow>
          (case Result_ctor tp True (length (results s)) (tasks s) of
             None \<Rightarrow> abort s
           | Some (r, ts) \<Rightarrow>
               let s1 = fold notify_all sigs
                          (s\<lparr>pool := p, generatedId := gid, accepted := accepted s @ [tp]\<rparr>);
                   s2 = (case spawned of
                           None \<Rightarrow> s1
                         | Some i \<Rightarrow> s1\<lparr>workers := workers s1 @ [new_worker i]\<rparr>)
               in s2\<lparr>results := results s2 @ [r], tasks := ts,
                     taskQueMtx := None, owner := U_idle\<rparr>))"

text \<open>Lines 81-82 of \<open>submitTask\<close>: the return of \<open>Result(task, false)\<close>.\<close>

definition submitTask_reject :: "task_ptr \<Rightarrow> system \<Rightarrow> system" where
  "submitTask_reject tp s =
     (case Result_ctor tp False (length (results s)) (tasks s) of
        None \<Rightarrow> abort s
      | Some (r, ts) \<Rightarrow>
          s\<lparr>results := results s @ [r], tasks := ts, taskQueMtx := None, owner := U_idle\<rparr>)"

text \<open>
  The \<open>wait_for\<close> with a predicate of line 77, at its entry (\<open>timed_out\<close> false) and
  after each return of the inner wait (\<open>timed_out\<close>: the deadline has passed). It is
  \<^verbatim>\<open>while (!pred()) if (wait_until(lock, deadline) == timeout) return pred(); return true;\<close>
  It is entered when the mutex is free: the mutex is taken (line 72, or by the inner wait
  as it returns) and given back, by the next wait or by the return of \<open>submitTask\<close>,
  within the one step.
\<close>

definition submitTask_wait :: "bool \<Rightarrow> task_ptr \<Rightarrow> nat \<Rightarrow> system \<Rightarrow> system" where
  "submitTask_wait timed_out tp dl s =
     (if notFull_pred (pool s) then submitTask_accept tp s
      else if timed_out then submitTask_reject tp s
      else s\<lparr>taskQueMtx := None, owner := S_wait tp dl\<rparr>)"

text \<open>
  What the owner does between two calls. \<open>C_make_task\<close> is \<open>std::make_shared\<close> of a task
  with the given outcome of \<open>run()\<close>; \<open>C_dtor\<close> is the first line of the destructor,
  line 28. A call that has to block first (\<open>submitTask\<close> on the mutex, \<open>get\<close> on the
  semaphore) is \<open>None\<close> for as long as it would block. \<open>start\<close> takes no mutex; it is
  called once, and not while threads that an earlier \<open>submitTask\<close> created still run.
\<close>

datatype call =
    C_setMode PoolMode
  | C_setTaskQueMaxThreshold int
  | C_setThreadSizeThreshold int
  | C_start int
  | C_make_task "exn + Any"
  | C_submitTask task_ptr
  | C_get nat
  | C_dtor

fun valid_ptr :: "task_ptr \<Rightarrow> Task list \<Rightarrow> bool" where
  "valid_ptr None ts = True"
| "valid_ptr (Some a) ts = (a < length ts)"

fun owner_call :: "call \<Rightarrow> system \<Rightarrow> system option" where
  "owner_call (C_setMode m) s = Some (s\<lparr>pool := setMode m (pool s)\<rparr>)"
| "owner_call (C_setTaskQueMaxThreshold n) s =
     (if is_int n then Some (s\<lparr>pool := setTaskQueMaxThreshold n (pool s)\<rparr>) else None)"
| "owner_call (C_setThreadSizeThreshold n) s =
     (if is_int n then Some (s\<lparr>pool := setThreadSizeThreshold n (pool s)\<rparr>) else None)"
| "owner_call (C_start n) s =
     (if is_int n \<and> \<not> started s \<and> list_all (\<lambda>w. pc w = W_exited) (workers s)
      then (case start n (pool s) (generatedId s) of
              None \<Rightarrow> Some (abort s)
            | Some (p, gid, ids) \<Rightarrow>
                Some (s\<lparr>pool := p, generatedId := gid,
                        workers := workers s @ map new_worker ids, started := True\<rparr>))
      else None)"
| "owner_call (C_make_task r) s = Some (s\<lparr>tasks := tasks s @ [\<lparr>run = r, result = None\<rparr>]\<rparr>)"
| "owner_call (C_submitTask tp) s =
     (if valid_ptr tp (tasks s) \<and> taskQueMtx s = None
      then Some (submitTask_wait False tp (now s + second) s)
      else None)"
| "owner_call (C_get r) s =
     (if r < length (results s)
      then (case get (results s ! r) of
              None \<Rightarrow> None
            | Some (v, r') \<Rightarrow> Some (s\<lparr>results := (results s)[r := r']\<rparr>))
      else None)"
| "owner_call C_dtor s = Some (s\<lparr>pool := (pool s)\<lparr>isPoolRunning := False\<rparr>, owner := D_lock\<rparr>)"

text \<open>
  The next step of the owner inside \<open>submitTask\<close> (line 77) or the destructor
  (lines 41-44); \<open>None\<close> where it is blocked.
\<close>

definition owner_step :: "system \<Rightarrow> system option" where
  "owner_step s =
     (case owner s of
        S_woken tp dl \<Rightarrow>
          if taskQueMtx s = None
          then Some (submitTask_wait (dl \<le> now s) tp dl s)
          else None
      | D_lock \<Rightarrow>
          if taskQueMtx s = None then Some (s\<lparr>taskQueMtx := Some Owner, owner := D_notify\<rparr>)
          else None
      | D_notify \<Rightarrow> Some (notify_all NotEmpty (s\<lparr>owner := D_pred\<rparr>))
      | D_pred \<Rightarrow>
          if length (threads (pool s)) = 0
          then Some (s\<lparr>taskQueMtx := None, owner := D_returned\<rparr>)
          else Some (s\<lparr>taskQueMtx := None, owner := D_wait\<rparr>)
      | D_woken \<Rightarrow>
          if taskQueMtx s = None then Some (s\<lparr>taskQueMtx := Some Owner, owner := D_pred\<rparr>)
          else None
      | _ \<Rightarrow> None)"

text \<open>The owner leaves a wait without a notification: its timer, or a spurious wake-up.\<close>

definition owner_wakes :: "system \<Rightarrow> system option" where
  "owner_wakes s =
     (case owner s of
        S_wait tp dl \<Rightarrow> Some (s\<lparr>owner := S_woken tp dl\<rparr>)
      | D_wait \<Rightarrow> Some (s\<lparr>owner := D_woken\<rparr>)
      | _ \<Rightarrow> None)"

subsection \<open>The workers\<close>

definition set_worker :: "nat \<Rightarrow> worker \<Rightarrow> system \<Rightarrow> system" where
  "set_worker k w s = s\<lparr>workers := (workers s)[k := w]\<rparr>"

text \<open>
  The next step of the thread \<open>k\<close> in \<open>threadFunc\<close>, lines 144-256; \<open>None\<close> where it is
  blocked (on the mutex, or in a wait) or has returned. An exception that leaves
  \<open>exec\<close> leaves \<open>threadFunc\<close> too, which has no handler either, and terminates the
  process.
\<close>

definition worker_step :: "nat \<Rightarrow> system \<Rightarrow> system option" where
  "worker_step k s =
     (if k < length (workers s) then
        let w = workers s ! k in
        case pc w of
          W_begin \<Rightarrow> Some (set_worker k (w\<lparr>lastTime := now s, pc := W_lock\<rparr>) s)
        | W_lock \<Rightarrow>
            if taskQueMtx s = None
            then Some (set_worker k (w\<lparr>pc := W_while\<rparr>) (s\<lparr>taskQueMtx := Some (Worker k)\<rparr>))
            else None
        | W_while \<Rightarrow>
            (case take_task (pool s) of
               None \<Rightarrow> Some (set_worker k (w\<lparr>pc := W_ifrun\<rparr>) s)
             | Some (tp, p, sigs) \<Rightarrow>
                 Some (fold notify_all sigs
                         (set_worker k (w\<lparr>pc := W_exec tp\<rparr>)
                            (s\<lparr>pool := p, taken := taken s @ [tp], taskQueMtx := None\<rparr>))))
        | W_ifrun \<Rightarrow>
            if \<not> isPoolRunning (pool s)
            then (case exit_not_running (threadId w) (pool s) of
                    (p, sigs) \<Rightarrow>
                      Some (fold notify_all sigs
                              (set_worker k (w\<lparr>pc := W_exited\<rparr>)
                                 (s\<lparr>pool := p, taskQueMtx := None\<rparr>))))
            else Some (set_worker k (w\<lparr>pc := W_mode\<rparr>) s)
        | W_mode \<Rightarrow>
            if poolMode (pool s) = MODE_CACHED
            then Some (set_worker k (w\<lparr>pc := W_wait_for (now s + second)\<rparr>)
                         (s\<lparr>taskQueMtx := None\<rparr>))
            else Some (set_worker k (w\<lparr>pc := W_wait\<rparr>) (s\<lparr>taskQueMtx := None\<rparr>))
        | W_woken_for dl \<Rightarrow>
            if taskQueMtx s = None then
              (if dl \<le> now s then
                 (case exit_idle (threadId w) (now s) (lastTime w) (pool s) of
                    Some (p, sigs) \<Rightarrow>
                      Some (fold notify_all sigs
                              (set_worker k (w\<lparr>pc := W_exited\<rparr>) (s\<lparr>pool := p\<rparr>)))
                  | None \<Rightarrow>
                      Some (set_worker k (w\<lparr>pc := W_while\<rparr>) (s\<lparr>taskQueMtx := Some (Worker k)\<rparr>)))
               else Some (set_worker k (w\<lparr>pc := W_while\<rparr>) (s\<lparr>taskQueMtx := Some (Worker k)\<rparr>)))
            else None
        | W_woken \<Rightarrow>
            if taskQueMtx s = None
            then Some (set_worker k (w\<lparr>pc := W_while\<rparr>) (s\<lparr>taskQueMtx := Some (Worker k)\<rparr>))
            else None
        | W_exec tp \<Rightarrow>
            (case tp of
               None \<Rightarrow> Some (set_worker k (w\<lparr>pc := W_done\<rparr>) s)
             | Some a \<Rightarrow>
                 if a < length (tasks s)
                 then (case exec (tasks s ! a) (results s) of
                         Inl e \<Rightarrow> Some (abort s)
                       | Inr rs \<Rightarrow> Some (set_worker k (w\<lparr>pc := W_done\<rparr>) (s\<lparr>results := rs\<rparr>)))
                 else Some (abort s))
        | W_done \<Rightarrow>
            Some (set_worker k (w\<lparr>lastTime := now s, pc := W_lock\<rparr>)
                    (s\<lparr>pool := (pool s)\<lparr>idleThreadSize := idleThreadSize (pool s) + 1\<rparr>\<rparr>))
        | _ \<Rightarrow> None
      else None)"

text \<open>The thread \<open>k\<close> leaves its wait without a notification (timer or spurious).\<close>

definition worker_wakes :: "nat \<Rightarrow> system \<Rightarrow> system option" where
  "worker_wakes k s =
     (if k < length (workers s) then
        let w = workers s ! k in
        case pc w of
          W_wait_for dl \<Rightarrow> Some (set_worker k (w\<lparr>pc := W_woken_for dl\<rparr>) s)
        | W_wait \<Rightarrow> Some (set_worker k (w\<lparr>pc := W_woken\<rparr>) s)
        | _ \<Rightarrow> None
      else None)"

subsection \<open>Steps and runs of the process\<close>

datatype action =
    Tick nat
  | Call call
  | Owner_step
  | Owner_wakes
  | Worker_step nat
  | Worker_wakes nat

fun enabled_action :: "action \<Rightarrow> system \<Rightarrow> system option" where
  "enabled_action (Tick d) s = Some (s\<lparr>now := now s + d\<rparr>)"
| "enabled_action (Call c) s = (if owner s = U_idle then owner_call c s else None)"
| "enabled_action Owner_step s = owner_step s"
| "enabled_action Owner_wakes s = owner_wakes s"
| "enabled_action (Worker_step k) s = worker_step k s"
| "enabled_action (Worker_wakes k) s = worker_wakes k s"

definition step :: "action \<Rightarrow> system \<Rightarrow> system option" where
  "step a s = (if aborted s then None else enabled_action a s)"

fun run_from :: "system \<Rightarrow> action list \<Rightarrow> system option" where
  "run_from s [] = Some s"
| "run_from s (a # as) = (case step a s of None \<Rightarrow> None | Some s' \<Rightarrow> run_from s' as)"

inductive reachable :: "system \<Rightarrow> bool" where
  reachable_init: "reachable init"
| reachable_step: "reachable s \<Longrightarrow> step a s = Some s' \<Longrightarrow> reachable s'"

section \<open>Properties of the states\<close>

text \<open>The places where a thread holds the mutex \<open>taskQueMtx_\<close>.\<close>

fun holds_mutex :: "worker_pc \<Rightarrow> bool" where
  "holds_mutex W_while = True"
| "holds_mutex W_ifrun = True"
| "holds_mutex W_mode = True"
| "holds_mutex c = False"

fun owner_holds :: "owner_pc \<Rightarrow> bool" where
  "owner_holds D_notify = True"
| "owner_holds D_pred = True"
| "owner_holds u = False"

text \<open>The places of the destructor, and those after its \<open>notify_all\<close> of line 42.\<close>

fun in_dtor :: "owner_pc \<Rightarrow> bool" where
  "in_dtor U_idle = False"
| "in_dtor (S_wait tp dl) = False"
| "in_dtor (S_woken tp dl) = False"
| "in_dtor u = True"

fun after_broadcast :: "owner_pc \<Rightarrow> bool" where
  "after_broadcast D_pred = True"
| "after_broadcast D_wait = True"
| "after_broadcast D_woken = True"
| "after_broadcast D_returned = True"
| "after_broadcast u = False"

text \<open>
  A worker blocked in a wait on \<open>notEmpty_\<close>, and a worker that has found the queue
  empty and is at line 168 or at line 176, about to wait.
\<close>

fun waiting :: "worker_pc \<Rightarrow> bool" where
  "waiting (W_wait_for dl) = True"
| "waiting W_wait = True"
| "waiting c = False"

fun seen_empty :: "worker_pc \<Rightarrow> bool" where
  "seen_empty W_ifrun = True"
| "seen_empty W_mode = True"
| "seen_empty c = False"

text \<open>Mutual exclusion: the mutex is held by exactly the thread at such a place.\<close>

definition mutex_inv :: "system \<Rightarrow> bool" where
  "mutex_inv s \<longleftrightarrow>
     (case taskQueMtx s of
        None \<Rightarrow>
          \<not> owner_holds (owner s)
          \<and> (\<forall>k < length (workers s). \<not> holds_mutex (pc (workers s ! k)))
      | Some Owner \<Rightarrow>
          owner_holds (owner s)
          \<and> (\<forall>k < length (workers s). \<not> holds_mutex (pc (workers s ! k)))
      | Some (Worker j) \<Rightarrow>
          \<not> owner_holds (owner s) \<and> j < length (workers s)
          \<and> (\<forall>k < length (workers s). holds_mutex (pc (workers s ! k)) \<longleftrightarrow> k = j))"

text \<open>The flag \<open>isPoolRunning_\<close> is set from \<open>start\<close> to the destructor.\<close>

definition flag_inv :: "system \<Rightarrow> bool" where
  "flag_inv s \<longleftrightarrow> (isPoolRunning (pool s) \<longleftrightarrow> started s \<and> \<not> in_dtor (owner s))"

text \<open>The tasks accepted are those taken, followed by those in the queue.\<close>

definition fifo_inv :: "system \<Rightarrow> bool" where
  "fifo_inv s \<longleftrightarrow> accepted s = taken s @ taskQue (pool s)"

text \<open>
  A worker at line 168 or 176 has found the queue empty, and holds the mutex since.
\<close>

definition empty_inv :: "system \<Rightarrow> bool" where
  "empty_inv s \<longleftrightarrow>
     (\<forall>k < length (workers s). seen_empty (pc (workers s ! k)) \<longrightarrow> taskQue (pool s) = [])"

text \<open>
  Once the destructor holds the mutex no worker is about to wait, and after its
  \<open>notify_all\<close> none is blocked on \<open>notEmpty_\<close>.
\<close>

definition wakeup_inv :: "system \<Rightarrow> bool" where
  "wakeup_inv s \<longleftrightarrow>
     (owner_holds (owner s) \<or> after_broadcast (owner s)
        \<longrightarrow> (\<forall>k < length (workers s). pc (workers s ! k) \<noteq> W_mode))
     \<and> (after_broadcast (owner s)
        \<longrightarrow> (\<forall>k < length (workers s). \<not> waiting (pc (workers s ! k))))"

text \<open>The ids and the counters of threads.\<close>

definition count_inv :: "system \<Rightarrow> bool" where
  "count_inv s \<longleftrightarrow>
     distinct (threads (pool s))
     \<and> (\<forall>i \<in> set (threads (pool s)). i < generatedId s)
     \<and> 0 \<le> generatedId s
     \<and> 0 \<le> curThreadSize (pool s) \<and> curThreadSize (pool s) < 2 ^ 64
     \<and> threadSizeThreshold (pool s) < 2 ^ 64
     \<and> (started s \<longrightarrow>
          int (initThreadSize (pool s)) \<le> curThreadSize (pool s)
          \<and> curThreadSize (pool s)
              \<le> max (int (initThreadSize (pool s))) (int (threadSizeThreshold (pool s))))"

text \<open>
  A pool started with a thread keeps \<open>curThreadSize_\<close> threads in \<open>threads_\<close> until, in
  the destructor, a thread has found the queue empty.
\<close>

definition drain_inv :: "system \<Rightarrow> bool" where
  "drain_inv s \<longleftrightarrow>
     (started s \<and> 0 < initThreadSize (pool s)
        \<longrightarrow> in_dtor (owner s) \<and> taskQue (pool s) = []
            \<or> curThreadSize (pool s) \<le> int (length (threads (pool s))))"

text \<open>A thread that has not returned is in \<open>threads_\<close>, under an id of its own.\<close>

definition registered_inv :: "system \<Rightarrow> bool" where
  "registered_inv s \<longleftrightarrow>
     (\<forall>k < length (workers s). threadId (workers s ! k) < generatedId s)
     \<and> (\<forall>k < length (workers s).
            pc (workers s ! k) \<noteq> W_exited
            \<longrightarrow> threadId (workers s ! k) \<in> set (threads (pool s)))
     \<and> (\<forall>j < length (workers s). \<forall>k < length (workers s).
            j \<noteq> k \<longrightarrow> pc (workers s ! j) \<noteq> W_exited \<longrightarrow> pc (workers s ! k) \<noteq> W_exited
            \<longrightarrow> threadId (workers s ! j) \<noteq> threadId (workers s ! k))"

text \<open>Once the destructor has returned, \<open>threads_\<close> is empty.\<close>

definition returned_inv :: "system \<Rightarrow> bool" where
  "returned_inv s \<longleftrightarrow> (owner s = D_returned \<longrightarrow> threads (pool s) = [])"

section \<open>Concrete runs\<close>

text \<open>
  The task of the examples returns the \<open>int\<close> 7; \<open>fresh_result\<close> is the Result that
  \<open>submitTask\<close> builds for the task at address 0, before anything is published.
\<close>

definition seven :: "exn + Any" where
  "seven = Inr (Any_of ''int'' (IntV 7))"

definition fresh_result :: Result where
  "fresh_result = \<lparr>any = Any None, sem = \<lparr>resLimit = 0\<rparr>, task = Some 0, isValid = True\<rparr>"

definition seven_task :: Task where
  "seven_task = \<lparr>run = seven, result = Some 0\<rparr>"

text \<open>A pool that is never started: a task is submitted and the pool destroyed.\<close>

definition unstarted_trace :: "action list" where
  "unstarted_trace =
     [Call (C_make_task seven), Call (C_submitTask (Some 0)), Call C_dtor,
      Owner_step, Owner_step, Owner_step]"

definition unstarted_done :: system where
  "unstarted_done =
     init\<lparr>pool := ThreadPool_ctor\<lparr>taskQue := [Some 0], taskSize := 1\<rparr>,
          owner := D_returned, tasks := [seven_task], results := [fresh_result],
          accepted := [Some 0]\<rparr>"

text \<open>
  A fixed pool of one thread runs one task and is destroyed: the thread takes the task,
  runs it, finds the queue empty and the pool not running, and leaves.
\<close>

definition drained_trace :: "action list" where
  "drained_trace =
     [Call (C_make_task seven), Call (C_start 1), Call (C_submitTask (Some 0)),
      Worker_step 0, Worker_step 0, Worker_step 0, Worker_step 0, Worker_step 0,
      Call C_dtor, Owner_step, Owner_step, Owner_step,
      Worker_step 0, Worker_step 0, Worker_step 0, Owner_step, Owner_step]"

definition drained_done :: system where
  "drained_done =
     init\<lparr>pool := ThreadPool_ctor\<lparr>initThreadSize := 1, idleThreadSize := 1, curThreadSize := 1\<rparr>,
          generatedId := 1,
          workers := [\<lparr>threadId = 0, pc = W_exited, lastTime = 0\<rparr>],
          owner := D_returned, tasks := [seven_task],
          results := [fresh_result\<lparr>any := Any_of ''int'' (IntV 7), sem := \<lparr>resLimit = 1\<rparr>\<rparr>],
          started := True, accepted := [Some 0], taken := [Some 0]\<rparr>"

text \<open>The same pool when its thread is at line 165 with the task in the queue, and after
  it has taken the task.\<close>

definition taking_trace :: "action list" where
  "taking_trace =
     [Call (C_make_task seven), Call (C_start 1), Call (C_submitTask (Some 0)),
      Worker_step 0, Worker_step 0]"

definition taking_state :: system where
  "taking_state =
     init\<lparr>pool := ThreadPool_ctor\<lparr>threads := [0], initThreadSize := 1, idleThreadSize := 1,
                                 curThreadSize := 1, taskQue := [Some 0], taskSize := 1,
                                 isPoolRunning := True\<rparr>,
          generatedId := 1, taskQueMtx := Some (Worker 0),
          workers := [\<lparr>threadId = 0, pc = W_while, lastTime = 0\<rparr>],
          tasks := [seven_task], results := [fresh_result],
          started := True, accepted := [Some 0]\<rparr>"

definition taken_state :: system where
  "taken_state =
     init\<lparr>pool := ThreadPool_ctor\<lparr>threads := [0], initThreadSize := 1, idleThreadSize := 0,
                                 curThreadSize := 1, isPoolRunning := True\<rparr>,
          generatedId := 1,
          workers := [\<lparr>threadId = 0, pc = W_exec (Some 0), lastTime = 0\<rparr>],
          tasks := [seven_task], results := [fresh_result],
          started := True, accepted := [Some 0], taken := [Some 0]\<rparr>"

text \<open>The same with a task whose \<open>run()\<close> throws.\<close>

definition boom :: "exn + Any" where
  "boom = Inl (Throw ''boom'')"

definition boom_trace :: "action list" where
  "boom_trace =
     [Call (C_make_task boom), Call (C_start 1), Call (C_submitTask (Some 0)),
      Worker_step 0, Worker_step 0, Worker_step 0]"

definition boom_state :: system where
  "boom_state = taken_state\<lparr>tasks := [\<lparr>run = boom, result = Some 0\<rparr>]\<rparr>"

text \<open>A cached pool with a thread limit of 1 that is started with 2 threads.\<close>

definition over_trace :: "action list" where
  "over_trace =
     [Call (C_setMode MODE_CACHED), Call (C_setThreadSizeThreshold 1), Call (C_start 2)]"

definition over_state :: system where
  "over_state =
     init\<lparr>pool := ThreadPool_ctor\<lparr>threads := [0, 1], initThreadSize := 2, idleThreadSize := 2,
                                 curThreadSize := 2, threadSizeThreshold := 1,
                                 poolMode := MODE_CACHED, isPoolRunning := True\<rparr>,
          generatedId := 2,
          workers := [\<lparr>threadId = 0, pc = W_begin, lastTime = 0\<rparr>,
                      \<lparr>threadId = 1, pc = W_begin, lastTime = 0\<rparr>],
          started := True\<rparr>"

text \<open>A cached pool started with no thread; the first task makes it create one.\<close>

definition cached_trace :: "action list" where
  "cached_trace =
     [Call (C_setMode MODE_CACHED), Call (C_start 0), Call (C_make_task seven),
      Call (C_submitTask (Some 0))]"

definition cached_state :: system where
  "cached_state =
     init\<lparr>pool := ThreadPool_ctor\<lparr>threads := [0], initThreadSize := 0, idleThreadSize := 1,
                                 curThreadSize := 1, taskQue := [Some 0], taskSize := 1,
                                 poolMode := MODE_CACHED, isPoolRunning := True\<rparr>,
          generatedId := 1,
          workers := [\<lparr>threadId = 0, pc = W_begin, lastTime = 0\<rparr>],
          tasks := [seven_task], results := [fresh_result],
          started := True, accepted := [Some 0]\<rparr>"

text \<open>
  That pool ten seconds later. Its thread has run the task and is idle since: nine
  times its \<open>wait_for\<close> of line 180 has timed out and, the ten seconds not being over,
  the thread has gone on with the loop. The pool is destroyed while the thread is in the
  tenth \<open>wait_for\<close>, at the time of the deadline: the thread is notified by the
  destructor and takes the mutex when the destructor waits on \<open>exitCond_\<close>.
\<close>

definition idle_round :: "action list" where
  "idle_round =
     [Tick second, Worker_wakes 0, Worker_step 0, Worker_step 0, Worker_step 0, Worker_step 0]"

definition retiring_trace :: "action list" where
  "retiring_trace =
     cached_trace @
     [Worker_step 0, Worker_step 0, Worker_step 0, Worker_step 0, Worker_step 0,
      Worker_step 0, Worker_step 0, Worker_step 0, Worker_step 0] @
     idle_round @ idle_round @ idle_round @ idle_round @ idle_round @
     idle_round @ idle_round @ idle_round @ idle_round @
     [Tick second, Call C_dtor, Owner_step, Owner_step, Owner_step]"

definition retiring_state :: system where
  "retiring_state =
     init\<lparr>pool := ThreadPool_ctor\<lparr>threads := [0], initThreadSize := 0, idleThreadSize := 1,
                                 curThreadSize := 1, poolMode := MODE_CACHED\<rparr>,
          generatedId := 1,
          workers := [\<lparr>threadId = 0, pc = W_woken_for (10 * second), lastTime = 0\<rparr>],
          owner := D_wait, tasks := [seven_task],
          results := [fresh_result\<lparr>any := Any_of ''int'' (IntV 7), sem := \<lparr>resLimit = 1\<rparr>\<rparr>],
          now := 10 * second, started := True, accepted := [Some 0], taken := [Some 0]\<rparr>"

definition idle_exit_trace :: "action list" where
  "idle_exit_trace = retiring_trace @ [Worker_step 0]"

definition stuck_state :: system where
  "stuck_state =
     init\<lparr>pool := ThreadPool_ctor\<lparr>initThreadSize := 0, poolMode := MODE_CACHED\<rparr>,
          generatedId := 1,
          workers := [\<lparr>threadId = 0, pc = W_exited, lastTime = 0\<rparr>],
          owner := D_wait, tasks := [seven_task],
          results := [fresh_result\<lparr>any := Any_of ''int'' (IntV 7), sem := \<lparr>resLimit = 1\<rparr>\<rparr>],
          now := 10 * second, started := True, accepted := [Some 0], taken := [Some 0]\<rparr>"

text \<open>
  A fixed pool of one thread that is destroyed while the thread holds the mutex, and
  the same pool destroyed while the thread is in the \<open>wait\<close> of line 202, after the
  \<open>notify_all\<close> of the destructor.
\<close>

definition locked_trace :: "action list" where
  "locked_trace = [Call (C_start 1), Worker_step 0, Worker_step 0]"

definition locked_state :: system where
  "locked_state =
     init\<lparr>pool := ThreadPool_ctor\<lparr>threads := [0], initThreadSize := 1, idleThreadSize := 1,
                                 curThreadSize := 1, isPoolRunning := True\<rparr>,
          generatedId := 1, taskQueMtx := Some (Worker 0),
          workers := [\<lparr>threadId = 0, pc = W_while, lastTime = 0\<rparr>],
          started := True\<rparr>"

definition flag_written_state :: system where
  "flag_written_state =
     locked_state\<lparr>pool := (pool locked_state)\<lparr>isPoolRunning := False\<rparr>, owner := D_lock\<rparr>"

definition ifrun_state :: system where
  "ifrun_state = locked_state\<lparr>workers := [\<lparr>threadId = 0, pc = W_ifrun, lastTime = 0\<rparr>]\<rparr>"

definition notify_trace :: "action list" where
  "notify_trace =
     locked_trace @ [Worker_step 0, Worker_step 0, Worker_step 0, Call C_dtor, Owner_step]"

definition notify_state :: system where
  "notify_state =
     init\<lparr>pool := ThreadPool_ctor\<lparr>threads := [0], initThreadSize := 1, idleThreadSize := 1,
                                 curThreadSize := 1\<rparr>,
          generatedId := 1, taskQueMtx := Some Owner,
          workers := [\<lparr>threadId = 0, pc = W_wait, lastTime = 0\<rparr>],
          owner := D_notify, started := True\<rparr>"

definition woken_trace :: "action list" where
  "woken_trace = notify_trace @ [Owner_step]"

definition woken_state :: system where
  "woken_state =
     init\<lparr>pool := ThreadPool_ctor\<lparr>threads := [0], initThreadSize := 1, idleThreadSize := 1,
                                 curThreadSize := 1\<rparr>,
          generatedId := 1, taskQueMtx := Some Owner,
          workers := [\<lparr>threadId = 0, pc = W_woken, lastTime = 0\<rparr>],
          owner := D_pred, started := True\<rparr>"

text \<open>
  A pool with a queue of capacity 0: the owner has waited its second in \<open>submitTask\<close>.
\<close>

definition full_trace :: "action list" where
  "full_trace =
     [Call (C_setTaskQueMaxThreshold 0), Call (C_make_task seven), Call (C_submitTask (Some 0)),
      Tick second, Owner_wakes]"

definition full_state :: system where
  "full_state =
     init\<lparr>pool := ThreadPool_ctor\<lparr>taskQueMaxThreshold := 0\<rparr>,
          owner := S_woken (Some 0) second,
          tasks := [\<lparr>run = seven, result = None\<rparr>], now := second\<rparr>"

text \<open>A pool that is not started, and a task made for it.\<close>

definition idle_state :: system where
  "idle_state = init\<lparr>tasks := [\<lparr>run = seven, result = None\<rparr>]\<rparr>"

text \<open>
  A cached pool that is never started, and a task made for it; the pool after the task
  has been submitted, with the thread that \<open>submitTask\<close> created; and the pool after
  that thread has taken the task and run it.
\<close>

definition spawning_trace :: "action list" where
  "spawning_trace = [Call (C_setMode MODE_CACHED), Call (C_make_task seven)]"

definition spawning_state :: system where
  "spawning_state =
     init\<lparr>pool := ThreadPool_ctor\<lparr>poolMode := MODE_CACHED\<rparr>,
          tasks := [\<lparr>run = seven, result = None\<rparr>]\<rparr>"

definition spawned_state :: system where
  "spawned_state =
     init\<lparr>pool := ThreadPool_ctor\<lparr>threads := [0], idleThreadSize := 1, curThreadSize := 1,
                                 taskQue := [Some 0], taskSize := 1,
                                 poolMode := MODE_CACHED\<rparr>,
          generatedId := 1,
          workers := [\<lparr>threadId = 0, pc = W_begin, lastTime = 0\<rparr>],
          tasks := [seven_task], results := [fresh_result], accepted := [Some 0]\<rparr>"

definition executed_state :: system where
  "executed_state =
     init\<lparr>pool := ThreadPool_ctor\<lparr>threads := [0], idleThreadSize := 0, curThreadSize := 1,
                                 poolMode := MODE_CACHED\<rparr>,
          generatedId := 1,
          workers := [\<lparr>threadId = 0, pc = W_done, lastTime = 0\<rparr>],
          tasks := [seven_task],
          results := [fresh_result\<lparr>any := Any_of ''int'' (IntV 7), sem := \<lparr>resLimit = 1\<rparr>\<rparr>],
          accepted := [Some 0], taken := [Some 0]\<rparr>"

section \<open>The steps, case by case\<close>

lemma notified_idem [simp]: "notified (notified c) = notified c"
  by (cases c) simp_all

lemma wake_idem [simp]: "wake (wake w) = wake w"
  by (simp add: wake_def)

lemma pc_wake [simp]: "pc (wake w) = notified (pc w)"
  by (simp add: wake_def)

lemma threadId_wake [simp]: "threadId (wake w) = threadId w"
  by (simp add: wake_def)

lemma lastTime_wake [simp]: "lastTime (wake w) = lastTime w"
  by (simp add: wake_def)

lemma size_t_of_int_nat: "0 \<le> i \<Longrightarrow> i < 2 ^ 64 \<Longrightarrow> size_t_of_int i = nat i"
  by (simp add: size_t_of_int_def)

lemma size_t_of_int_less: "size_t_of_int i < 2 ^ 64"
  by (simp add: size_t_of_int_def nat_less_iff)

lemma worker_stepE:
  assumes "worker_step k s = Some s'"
  obtains
    (w_begin) w where "k < length (workers s)" "w = workers s ! k" "pc w = W_begin"
      "s' = s\<lparr>workers := (workers s)[k := w\<lparr>lastTime := now s, pc := W_lock\<rparr>]\<rparr>"
  | (w_lock) w where "k < length (workers s)" "w = workers s ! k" "pc w = W_lock"
      "taskQueMtx s = None"
      "s' = s\<lparr>taskQueMtx := Some (Worker k), workers := (workers s)[k := w\<lparr>pc := W_while\<rparr>]\<rparr>"
  | (w_empty) w where "k < length (workers s)" "w = workers s ! k" "pc w = W_while"
      "taskQue (pool s) = []"
      "s' = s\<lparr>workers := (workers s)[k := w\<lparr>pc := W_ifrun\<rparr>]\<rparr>"
  | (w_take) w tp q where "k < length (workers s)" "w = workers s ! k" "pc w = W_while"
      "taskQue (pool s) = tp # q"
      "s' = s\<lparr>pool := (pool s)\<lparr>idleThreadSize := idleThreadSize (pool s) - 1, taskQue := q,
                       taskSize := (taskSize (pool s) + 2 ^ 32 - 1) mod 2 ^ 32\<rparr>,
               taken := taken s @ [tp], taskQueMtx := None,
               workers := (if q \<noteq> [] then map wake else id)
                            ((workers s)[k := w\<lparr>pc := W_exec tp\<rparr>]),
               owner := owner_notified NotFull (owner s)\<rparr>"
  | (w_exit_not_running) w where "k < length (workers s)" "w = workers s ! k" "pc w = W_ifrun"
      "\<not> isPoolRunning (pool s)"
      "s' = s\<lparr>pool := (pool s)\<lparr>threads := erase (threadId w) (threads (pool s))\<rparr>,
               taskQueMtx := None,
               workers := (workers s)[k := w\<lparr>pc := W_exited\<rparr>],
               owner := owner_notified ExitCond (owner s)\<rparr>"
  | (w_running) w where "k < length (workers s)" "w = workers s ! k" "pc w = W_ifrun"
      "isPoolRunning (pool s)"
      "s' = s\<lparr>workers := (workers s)[k := w\<lparr>pc := W_mode\<rparr>]\<rparr>"
  | (w_wait_for) w where "k < length (workers s)" "w = workers s ! k" "pc w = W_mode"
      "poolMode (pool s) = MODE_CACHED"
      "s' = s\<lparr>taskQueMtx := None,
               workers := (workers s)[k := w\<lparr>pc := W_wait_for (now s + second)\<rparr>]\<rparr>"
  | (w_wait) w where "k < length (workers s)" "w = workers s ! k" "pc w = W_mode"
      "poolMode (pool s) = MODE_FIXED"
      "s' = s\<lparr>taskQueMtx := None, workers := (workers s)[k := w\<lparr>pc := W_wait\<rparr>]\<rparr>"
  | (w_exit_idle) w dl where "k < length (workers s)" "w = workers s ! k"
      "pc w = W_woken_for dl" "taskQueMtx s = None" "dl \<le> now s"
      "THREAD_MAX_IDLE_TIME \<le> idle_seconds (now s) (lastTime w)"
      "initThreadSize (pool s) < size_t_of_int (curThreadSize (pool s))"
      "s' = s\<lparr>pool := (pool s)\<lparr>threads := erase (threadId w) (threads (pool s)),
                     curThreadSize := curThreadSize (pool s) - 1,
                     idleThreadSize := idleThreadSize (pool s) - 1\<rparr>,
               workers := (workers s)[k := w\<lparr>pc := W_exited\<rparr>]\<rparr>"
  | (w_relock) w where "k < length (workers s)" "w = workers s ! k"
      "(\<exists>dl. pc w = W_woken_for dl) \<or> pc w = W_woken" "taskQueMtx s = None"
      "s' = s\<lparr>taskQueMtx := Some (Worker k), workers := (workers s)[k := w\<lparr>pc := W_while\<rparr>]\<rparr>"
  | (w_exec_null) w where "k < length (workers s)" "w = workers s ! k" "pc w = W_exec None"
      "s' = s\<lparr>workers := (workers s)[k := w\<lparr>pc := W_done\<rparr>]\<rparr>"
  | (w_exec) w a rs where "k < length (workers s)" "w = workers s ! k"
      "pc w = W_exec (Some a)" "a < length (tasks s)"
      "exec (tasks s ! a) (results s) = Inr rs"
      "s' = s\<lparr>results := rs, workers := (workers s)[k := w\<lparr>pc := W_done\<rparr>]\<rparr>"
  | (w_abort) "s' = abort s"
  | (w_done) w where "k < length (workers s)" "w = workers s ! k" "pc w = W_done"
      "s' = s\<lparr>pool := (pool s)\<lparr>idleThreadSize := idleThreadSize (pool s) + 1\<rparr>,
               workers := (workers s)[k := w\<lparr>lastTime := now s, pc := W_lock\<rparr>]\<rparr>"
proof -
  from assms have k: "k < length (workers s)"
    by (simp add: worker_step_def split: if_splits)
  define w where "w = workers s ! k"
  show thesis
  proof (cases "pc w")
    case W_begin
    with assms k w_def show thesis
      by (intro w_begin[of w]) (simp_all add: Let_def worker_step_def set_worker_def)
  next
    case W_lock
    with assms k w_def show thesis
      by (intro w_lock[of w]) (simp_all add: Let_def worker_step_def set_worker_def split: if_splits)
  next
    case W_while
    show thesis
    proof (cases "taskQue (pool s)")
      case Nil
      with W_while assms k w_def show thesis
        by (intro w_empty[of w]) (simp_all add: Let_def worker_step_def set_worker_def take_task_def)
    next
      case (Cons tp q)
      with W_while assms k w_def show thesis
        by (intro w_take[of w tp q])
           (auto simp add: Let_def worker_step_def set_worker_def take_task_def)
    qed
  next
    case W_ifrun
    with assms k w_def show thesis
      by (cases "isPoolRunning (pool s)")
         (auto intro: w_exit_not_running[of w] w_running[of w]
               simp add: Let_def worker_step_def set_worker_def exit_not_running_def Let_def)
  next
    case W_mode
    with assms k w_def show thesis
      by (cases "poolMode (pool s)")
         (auto intro: w_wait_for[of w] w_wait[of w] simp add: Let_def worker_step_def set_worker_def)
  next
    case (W_wait_for x)
    with assms k w_def show thesis by (simp add: worker_step_def)
  next
    case W_wait
    with assms k w_def show thesis by (simp add: worker_step_def)
  next
    case (W_woken_for dl)
    with assms k w_def show thesis
      apply (simp add: Let_def worker_step_def set_worker_def exit_idle_def split: if_splits)
      by (auto intro: w_exit_idle[of w dl] w_relock[of w])
  next
    case W_woken
    with assms k w_def show thesis
      by (intro w_relock[of w]) (simp_all add: Let_def worker_step_def set_worker_def split: if_splits)
  next
    case (W_exec tp)
    with assms k w_def show thesis
      apply (cases tp)
       apply (simp add: Let_def worker_step_def set_worker_def w_exec_null[of w])
      by (auto intro: w_exec[of w] w_abort
               simp add: Let_def worker_step_def set_worker_def split: if_splits sum.splits)
  next
    case W_done
    with assms k w_def show thesis
      by (intro w_done[of w]) (simp_all add: Let_def worker_step_def set_worker_def)
  next
    case W_exited
    with assms k w_def show thesis by (simp add: worker_step_def)
  qed
qed

lemma worker_wakesE:
  assumes "worker_wakes k s = Some s'"
  obtains
    (ww_for) w dl where "k < length (workers s)" "w = workers s ! k" "pc w = W_wait_for dl"
      "s' = s\<lparr>workers := (workers s)[k := w\<lparr>pc := W_woken_for dl\<rparr>]\<rparr>"
  | (ww_wait) w where "k < length (workers s)" "w = workers s ! k" "pc w = W_wait"
      "s' = s\<lparr>workers := (workers s)[k := w\<lparr>pc := W_woken\<rparr>]\<rparr>"
proof -
  from assms have k: "k < length (workers s)"
    by (simp add: worker_wakes_def split: if_splits)
  with assms show thesis
    by (cases "pc (workers s ! k)")
       (auto intro: ww_for ww_wait simp add: Let_def worker_wakes_def set_worker_def)
qed

lemma submitTask_waitE:
  assumes "submitTask_wait b tp dl s = s'"
  obtains
    (s_abort) "s' = abort s"
  | (s_accept) r ts where "notFull_pred (pool s)"
      "Result_ctor tp True (length (results s)) (tasks s) = Some (r, ts)"
      "s' = s\<lparr>pool := (pool s)\<lparr>taskQue := taskQue (pool s) @ [tp],
                             taskSize := (taskSize (pool s) + 1) mod 2 ^ 32\<rparr>,
               accepted := accepted s @ [tp], workers := map wake (workers s),
               results := results s @ [r], tasks := ts, taskQueMtx := None, owner := U_idle\<rparr>"
  | (s_spawn) r ts where "notFull_pred (pool s)"
      "Result_ctor tp True (length (results s)) (tasks s) = Some (r, ts)"
      "poolMode (pool s) = MODE_CACHED"
      "unsigned_of_int (idleThreadSize (pool s)) < (taskSize (pool s) + 1) mod 2 ^ 32"
      "size_t_of_int (curThreadSize (pool s)) < threadSizeThreshold (pool s)"
      "s' = s\<lparr>pool := (pool s)\<lparr>taskQue := taskQue (pool s) @ [tp],
                             taskSize := (taskSize (pool s) + 1) mod 2 ^ 32,
                             threads := emplace (generatedId s) (threads (pool s)),
                             curThreadSize := curThreadSize (pool s) + 1,
                             idleThreadSize := idleThreadSize (pool s) + 1\<rparr>,
               generatedId := generatedId s + 1,
               accepted := accepted s @ [tp],
               workers := map wake (workers s) @ [new_worker (generatedId s)],
               results := results s @ [r], tasks := ts, taskQueMtx := None, owner := U_idle\<rparr>"
  | (s_reject) r ts where "\<not> notFull_pred (pool s)" "b"
      "Result_ctor tp False (length (results s)) (tasks s) = Some (r, ts)"
      "s' = s\<lparr>results := results s @ [r], tasks := ts, taskQueMtx := None, owner := U_idle\<rparr>"
  | (s_wait) "\<not> notFull_pred (pool s)" "\<not> b"
      "s' = s\<lparr>taskQueMtx := None, owner := S_wait tp dl\<rparr>"
proof (cases "notFull_pred (pool s)")
  case True
  show thesis
  proof (cases "Result_ctor tp True (length (results s)) (tasks s)")
    case None
    with True assms show thesis
      by (intro s_abort) (simp add: submitTask_wait_def submitTask_accept_def split: prod.splits)
  next
    case (Some rt)
    obtain r ts where rt: "rt = (r, ts)" by (cases rt)
    let ?p1 = "(pool s)\<lparr>taskQue := taskQue (pool s) @ [tp],
                          taskSize := (taskSize (pool s) + 1) mod 2 ^ 32\<rparr>"
    show thesis
    proof (cases "spawn_cond ?p1")
      case sc: True
      show thesis
      proof (rule s_spawn[of r ts])
        show "s' = s\<lparr>pool := (pool s)\<lparr>taskQue := taskQue (pool s) @ [tp],
                             taskSize := (taskSize (pool s) + 1) mod 2 ^ 32,
                             threads := emplace (generatedId s) (threads (pool s)),
                             curThreadSize := curThreadSize (pool s) + 1,
                             idleThreadSize := idleThreadSize (pool s) + 1\<rparr>,
               generatedId := generatedId s + 1,
               accepted := accepted s @ [tp],
               workers := map wake (workers s) @ [new_worker (generatedId s)],
               results := results s @ [r], tasks := ts, taskQueMtx := None, owner := U_idle\<rparr>"
          using True Some rt sc assms
          by (simp add: submitTask_wait_def submitTask_accept_def submitTask_enqueue_def Let_def)
      qed (use True Some rt sc in \<open>simp_all add: spawn_cond_def\<close>)
    next
      case sc: False
      show thesis
      proof (rule s_accept[of r ts])
        show "s' = s\<lparr>pool := ?p1,
               accepted := accepted s @ [tp], workers := map wake (workers s),
               results := results s @ [r], tasks := ts, taskQueMtx := None, owner := U_idle\<rparr>"
          using True Some rt sc assms
          by (simp add: submitTask_wait_def submitTask_accept_def submitTask_enqueue_def Let_def)
      qed (use True Some rt in simp_all)
    qed
  qed
next
  case False
  show thesis
  proof (cases b)
    case b: True
    show thesis
    proof (cases "Result_ctor tp False (length (results s)) (tasks s)")
      case None
      with False b assms show thesis
        by (intro s_abort) (simp add: submitTask_wait_def submitTask_reject_def)
    next
      case (Some rt)
      obtain r ts where rt: "rt = (r, ts)" by (cases rt)
      with False b Some assms show thesis
        by (intro s_reject[of r ts]) (simp_all add: submitTask_wait_def submitTask_reject_def)
    qed
  next
    case b: False
    with False assms show thesis
      by (intro s_wait) (simp_all add: submitTask_wait_def)
  qed
qed

lemma owner_callE:
  assumes "owner_call c s = Some s'"
  obtains
    (noop) "s' = s"
  | (set_mode) m where "\<not> isPoolRunning (pool s)" "s' = s\<lparr>pool := (pool s)\<lparr>poolMode := m\<rparr>\<rparr>"
  | (set_queue_max) n where "is_int n" "\<not> isPoolRunning (pool s)"
      "s' = s\<lparr>pool := (pool s)\<lparr>taskQueMaxThreshold := n\<rparr>\<rparr>"
  | (set_thread_max) n where "is_int n" "\<not> isPoolRunning (pool s)"
      "poolMode (pool s) = MODE_CACHED"
      "s' = s\<lparr>pool := (pool s)\<lparr>threadSizeThreshold := size_t_of_int n\<rparr>\<rparr>"
  | (start) n where "is_int n" "0 \<le> n" "\<not> started s"
      "list_all (\<lambda>w. pc w = W_exited) (workers s)"
      "list_all (\<lambda>i. i \<in> set (fold emplace (map (\<lambda>i. generatedId s + int i) [0..<nat n])
                                     (threads (pool s))))
                (map int [0..<nat n])"
      "s' = s\<lparr>pool := (pool s)\<lparr>isPoolRunning := True, initThreadSize := nat n,
                     curThreadSize := n,
                     threads := fold emplace (map (\<lambda>i. generatedId s + int i) [0..<nat n])
                                  (threads (pool s)),
                     idleThreadSize := idleThreadSize (pool s) + n\<rparr>,
               generatedId := generatedId s + n,
               workers := workers s @ map new_worker (map int [0..<nat n]),
               started := True\<rparr>"
  | (abort) "s' = abort s"
  | (make_task) r where "s' = s\<lparr>tasks := tasks s @ [\<lparr>run = r, result = None\<rparr>]\<rparr>"
  | (submit) tp where "valid_ptr tp (tasks s)" "taskQueMtx s = None"
      "submitTask_wait False tp (now s + second) s = s'"
  | (get) r v r' where "r < length (results s)" "get (results s ! r) = Some (v, r')"
      "s' = s\<lparr>results := (results s)[r := r']\<rparr>"
  | (dtor) "s' = s\<lparr>pool := (pool s)\<lparr>isPoolRunning := False\<rparr>, owner := D_lock\<rparr>"
proof (cases c)
  case (C_setMode m)
  with assms show thesis
    by (cases "isPoolRunning (pool s)")
       (auto intro: noop set_mode[of m] simp add: setMode_def checkRunningState_def)
next
  case (C_setTaskQueMaxThreshold n)
  with assms show thesis
    by (cases "isPoolRunning (pool s)")
       (auto intro: noop set_queue_max[of n]
             simp add: setTaskQueMaxThreshold_def checkRunningState_def split: if_splits)
next
  case (C_setThreadSizeThreshold n)
  with assms show thesis
    by (cases "isPoolRunning (pool s)"; cases "poolMode (pool s)")
       (auto intro: noop set_thread_max[of n]
             simp add: setThreadSizeThreshold_def checkRunningState_def split: if_splits)
next
  case (C_start n)
  from assms C_start have g: "is_int n" "\<not> started s"
    "list_all (\<lambda>w. pc w = W_exited) (workers s)"
    by (simp_all split: if_splits)
  show thesis
  proof (cases "start n (pool s) (generatedId s)")
    case None
    with assms C_start g show thesis by (intro abort) simp
  next
    case (Some x)
    then have n: "0 \<le> n" by (simp add: start_def split: if_splits)
    with g have sz: "size_t_of_int n = nat n"
      by (intro size_t_of_int_nat) (simp_all add: is_int_def)
    from Some n have
      la: "list_all (\<lambda>i. i \<in> set (fold emplace (map (\<lambda>i. generatedId s + int i) [0..<nat n])
                                     (threads (pool s))))
                (map int [0..<nat n])"
      by (simp add: start_def Let_def split: if_splits)
    from Some n la sz have x: "x = ((pool s)\<lparr>isPoolRunning := True, initThreadSize := nat n,
                     curThreadSize := n,
                     threads := fold emplace (map (\<lambda>i. generatedId s + int i) [0..<nat n])
                                  (threads (pool s)),
                     idleThreadSize := idleThreadSize (pool s) + n\<rparr>,
                  generatedId s + n, map int [0..<nat n])"
      by (simp add: start_def Let_def)
    show thesis
      by (rule start[of n]) (use assms C_start g n la Some x in simp_all)
  qed
next
  case (C_make_task r)
  with assms show thesis by (intro make_task[of r]) simp
next
  case (C_submitTask tp)
  with assms show thesis by (intro submit[of tp]) (simp_all split: if_splits)
next
  case (C_get r)
  with assms show thesis
    by (auto intro: get simp add: split: if_splits option.splits)
next
  case C_dtor
  with assms show thesis by (intro dtor) simp
qed

lemma owner_stepE:
  assumes "owner_step s = Some s'"
  obtains
    (resume) tp dl where "owner s = S_woken tp dl" "taskQueMtx s = None"
      "submitTask_wait (dl \<le> now s) tp dl s = s'"
  | (d_lock) "owner s = D_lock" "taskQueMtx s = None"
      "s' = s\<lparr>taskQueMtx := Some Owner, owner := D_notify\<rparr>"
  | (d_notify) "owner s = D_notify"
      "s' = s\<lparr>workers := map wake (workers s), owner := D_pred\<rparr>"
  | (d_return) "owner s = D_pred" "threads (pool s) = []"
      "s' = s\<lparr>taskQueMtx := None, owner := D_returned\<rparr>"
  | (d_wait) "owner s = D_pred" "threads (pool s) \<noteq> []"
      "s' = s\<lparr>taskQueMtx := None, owner := D_wait\<rparr>"
  | (d_woken) "owner s = D_woken" "taskQueMtx s = None"
      "s' = s\<lparr>taskQueMtx := Some Owner, owner := D_pred\<rparr>"
  using assms
  by (cases "owner s") (auto simp add: owner_step_def split: if_splits)

lemma owner_wakesE:
  assumes "owner_wakes s = Some s'"
  obtains
    (ow_submit) tp dl where "owner s = S_wait tp dl" "s' = s\<lparr>owner := S_woken tp dl\<rparr>"
  | (ow_dtor) "owner s = D_wait" "s' = s\<lparr>owner := D_woken\<rparr>"
  using assms
  by (cases "owner s") (auto simp add: owner_wakes_def)

lemma stepE:
  assumes "step a s = Some s'"
  obtains
    (tick) d where "\<not> aborted s" "s' = s\<lparr>now := now s + d\<rparr>"
  | (call) c where "\<not> aborted s" "owner s = U_idle" "owner_call c s = Some s'"
  | (owner_step) "\<not> aborted s" "owner_step s = Some s'"
  | (owner_wakes) "\<not> aborted s" "owner_wakes s = Some s'"
  | (worker_step) k where "\<not> aborted s" "worker_step k s = Some s'"
  | (worker_wakes) k where "\<not> aborted s" "worker_wakes k s = Some s'"
  using assms
  by (cases a) (auto simp add: step_def split: if_splits)

lemma reachable_run_from:
  "reachable s \<Longrightarrow> run_from s as = Some s' \<Longrightarrow> reachable s'"
proof (induction as arbitrary: s)
  case Nil
  then show ?case by simp
next
  case (Cons a as)
  then show ?case
    by (auto split: option.splits intro: reachable_step)
qed

subsection \<open>What a notification keeps\<close>

lemma holds_mutex_notified [simp]: "holds_mutex (notified c) = holds_mutex c"
  by (cases c) simp_all

lemma seen_empty_notified [simp]: "seen_empty (notified c) = seen_empty c"
  by (cases c) simp_all

lemma waiting_notified [simp]: "\<not> waiting (notified c)"
  by (cases c) simp_all

lemma notified_eq_mode [simp]: "notified c = W_mode \<longleftrightarrow> c = W_mode"
  by (cases c) simp_all

lemma notified_eq_ifrun [simp]: "notified c = W_ifrun \<longleftrightarrow> c = W_ifrun"
  by (cases c) simp_all

lemma notified_eq_exited [simp]: "notified c = W_exited \<longleftrightarrow> c = W_exited"
  by (cases c) simp_all

lemma in_dtor_notified [simp]: "in_dtor (owner_notified c u) = in_dtor u"
  by (cases c; cases u) simp_all

lemma owner_holds_notified [simp]: "owner_holds (owner_notified c u) = owner_holds u"
  by (cases c; cases u) simp_all

lemma after_broadcast_notified [simp]: "after_broadcast (owner_notified c u) = after_broadcast u"
  by (cases c; cases u) simp_all

lemma owner_notified_eq_returned [simp]: "owner_notified c u = D_returned \<longleftrightarrow> u = D_returned"
  by (cases c; cases u) simp_all

lemma owner_notified_eq_idle [simp]: "owner_notified c u = U_idle \<longleftrightarrow> u = U_idle"
  by (cases c; cases u) simp_all

lemma owner_holds_in_dtor: "owner_holds u \<Longrightarrow> in_dtor u"
  by (cases u) simp_all

lemma after_broadcast_in_dtor: "after_broadcast u \<Longrightarrow> in_dtor u"
  by (cases u) simp_all

lemma seen_empty_holds: "seen_empty c \<Longrightarrow> holds_mutex c"
  by (cases c) simp_all

lemma run_from_append:
  "run_from s (as @ bs) = (case run_from s as of None \<Rightarrow> None | Some s' \<Rightarrow> run_from s' bs)"
  by (induction as arbitrary: s) (auto split: option.splits)

section \<open>Invariants\<close>

lemma mutex_inv_step:
  assumes "mutex_inv s" "step a s = Some s'"
  shows "mutex_inv s'"
  using assms(2,1)
  apply (elim stepE owner_callE owner_stepE owner_wakesE worker_stepE worker_wakesE)
  apply (elim submitTask_waitE
         | (auto simp add: mutex_inv_def abort_def nth_list_update nth_append new_worker_def
                 split: option.splits thread.splits)[1])+
  done

lemma flag_inv_step:
  assumes "flag_inv s" "step a s = Some s'"
  shows "flag_inv s'"
  using assms(2,1)
  apply (elim stepE owner_callE owner_stepE owner_wakesE worker_stepE worker_wakesE)
  apply (elim submitTask_waitE | (auto simp add: flag_inv_def abort_def)[1])+
  done

lemma fifo_inv_step:
  assumes "fifo_inv s" "step a s = Some s'"
  shows "fifo_inv s'"
  using assms(2,1)
  apply (elim stepE owner_callE owner_stepE owner_wakesE worker_stepE worker_wakesE)
  apply (elim submitTask_waitE | (auto simp add: fifo_inv_def abort_def)[1])+
  done

lemma empty_inv_step:
  assumes "empty_inv s" "mutex_inv s" "step a s = Some s'"
  shows "empty_inv s'"
  using assms(3,1,2)
  apply (elim stepE owner_callE owner_stepE owner_wakesE worker_stepE worker_wakesE)
  apply (elim submitTask_waitE
         | (auto simp add: empty_inv_def mutex_inv_def abort_def nth_list_update nth_append
                           new_worker_def
                 split: option.splits thread.splits dest: seen_empty_holds)[1])+
  done

lemma wakeup_inv_step:
  assumes "wakeup_inv s" "mutex_inv s" "flag_inv s" "step a s = Some s'"
  shows "wakeup_inv s'"
  using assms(4,1,2,3)
  apply (elim stepE owner_callE owner_stepE owner_wakesE worker_stepE worker_wakesE)
  apply (elim submitTask_waitE
         | (auto simp add: wakeup_inv_def mutex_inv_def flag_inv_def abort_def nth_list_update
                           nth_append new_worker_def
                 split: option.splits thread.splits
                 dest: owner_holds_in_dtor after_broadcast_in_dtor)[1])+
  done

subsection \<open>The map of threads\<close>

lemma set_emplace [simp]: "set (emplace k m) = insert k (set m)"
  by (auto simp add: emplace_def)

lemma distinct_emplace [simp]: "distinct (emplace k m) = distinct m"
  by (simp add: emplace_def)

lemma length_emplace: "k \<notin> set m \<Longrightarrow> length (emplace k m) = Suc (length m)"
  by (simp add: emplace_def)

lemma set_erase [simp]: "set (erase k m) = set m - {k}"
  by (auto simp add: erase_def)

lemma distinct_erase [simp]: "distinct m \<Longrightarrow> distinct (erase k m)"
  by (simp add: erase_def)

lemma erase_absent: "k \<notin> set m \<Longrightarrow> erase k m = m"
  by (auto simp add: erase_def filter_id_conv)

lemma length_erase: "distinct m \<Longrightarrow> length m \<le> Suc (length (erase k m))"
proof (induction m)
  case Nil
  then show ?case by (simp add: erase_def)
next
  case (Cons x m)
  show ?case
  proof (cases "x = k")
    case True
    with Cons.prems have "erase k (x # m) = m"
      using erase_absent[of k m] by (simp add: erase_def)
    then show ?thesis by simp
  next
    case False
    with Cons show ?thesis by (simp add: erase_def)
  qed
qed

lemma fold_emplace_fresh:
  "\<forall>i \<in> set m. i < g \<Longrightarrow>
   fold emplace (map (\<lambda>i. g + int i) [0..<n]) m = m @ map (\<lambda>i. g + int i) [0..<n]"
proof (induction n)
  case 0
  then show ?case by simp
next
  case (Suc n)
  then have "g + int n \<notin> set (m @ map (\<lambda>i. g + int i) [0..<n])"
    by auto
  with Suc show ?case
    by (simp add: emplace_def)
qed

lemma size_t_of_int_bound [simp]: "size_t_of_int i < 18446744073709551616"
  using size_t_of_int_less[of i] by simp

lemma count_inv_step:
  assumes "count_inv s" "flag_inv s" "step a s = Some s'"
  shows "count_inv s'"
  using assms(3,1,2)
  apply (elim stepE owner_callE owner_stepE owner_wakesE worker_stepE worker_wakesE)
  apply (elim submitTask_waitE
         | (auto simp add: count_inv_def flag_inv_def abort_def fold_emplace_fresh is_int_def
                  size_t_of_int_nat distinct_map inj_on_def)[1])+
  done

lemma drain_inv_exit_idle:
  assumes "drain_inv s" "count_inv s"
    "initThreadSize (pool s) < size_t_of_int (curThreadSize (pool s))"
    "s' = s\<lparr>pool := (pool s)\<lparr>threads := erase i (threads (pool s)),
                     curThreadSize := curThreadSize (pool s) - 1,
                     idleThreadSize := idleThreadSize (pool s) - 1\<rparr>,
             workers := ws\<rparr>"
  shows "drain_inv s'"
proof -
  from assms(2) have "distinct (threads (pool s))"
    by (simp add: count_inv_def)
  then have "length (threads (pool s)) \<le> Suc (length (erase i (threads (pool s))))"
    by (rule length_erase)
  with assms show ?thesis
    by (auto simp add: drain_inv_def)
qed

lemma drain_inv_step:
  assumes "drain_inv s" "count_inv s" "flag_inv s" "empty_inv s" "step a s = Some s'"
  shows "drain_inv s'"
  using assms(5,1,2,3,4)
  apply (elim stepE owner_callE owner_stepE owner_wakesE worker_stepE worker_wakesE)
  apply (elim submitTask_waitE
         | (rule drain_inv_exit_idle; assumption)
         | (auto simp add: drain_inv_def count_inv_def flag_inv_def empty_inv_def abort_def
                   fold_emplace_fresh is_int_def size_t_of_int_nat length_emplace)[1])+
  done

lemma registered_inv_start:
  assumes "registered_inv s" "count_inv s" "0 \<le> n"
    "list_all (\<lambda>w. pc w = W_exited) (workers s)"
    "list_all (\<lambda>i. i \<in> set ths) (map int [0..<nat n])"
    "s' = s\<lparr>pool := (pool s)\<lparr>isPoolRunning := True, initThreadSize := nat n,
                     curThreadSize := n, threads := ths,
                     idleThreadSize := idleThreadSize (pool s) + n\<rparr>,
             generatedId := generatedId s + n,
             workers := workers s @ map new_worker (map int [0..<nat n]),
             started := True\<rparr>"
  shows "registered_inv s'"
proof -
  let ?ws = "workers s" and ?new = "map new_worker (map int [0..<nat n])"
  have old: "pc (?ws ! k) = W_exited" "threadId (?ws ! k) < generatedId s"
    if "k < length ?ws" for k
    using that assms(1,4) by (simp_all add: list_all_length registered_inv_def)
  have gen: "0 \<le> n" "0 \<le> generatedId s"
    using assms(2,3) by (simp_all add: count_inv_def)
  have new: "pc (?new ! i) = W_begin" "threadId (?new ! i) = int i"
    "int i \<in> set ths" "int i < generatedId s + n"
    if "i < nat n" for i
    using that assms(5) gen by (simp_all add: new_worker_def list_all_length)
  have ws': "workers s' = ?ws @ ?new" "generatedId s' = generatedId s + n"
    "threads (pool s') = ths"
    using assms(6) by simp_all
  have len: "length (workers s') = length ?ws + nat n"
    using ws' by simp
  have split: "k < length ?ws \<or> (\<exists>i < nat n. k = length ?ws + i)"
    if "k < length (workers s')" for k
    using that len by (metis add_diff_inverse_nat nat_add_left_cancel_less)
  have nth_new: "workers s' ! (length ?ws + i) = ?new ! i" for i
    using ws' by (simp add: nth_append)
  have nth_old: "workers s' ! k = ?ws ! k" if "k < length ?ws" for k
    using ws' that by (simp add: nth_append)
  show ?thesis
    unfolding registered_inv_def
  proof (intro conjI allI impI)
    fix k assume "k < length (workers s')"
    from split[OF this] show "threadId (workers s' ! k) < generatedId s'"
    proof (elim disjE exE conjE)
      assume k: "k < length ?ws"
      with old(2)[OF k] gen show ?thesis
        by (simp add: nth_old ws'(2))
    next
      fix i assume "i < nat n" "k = length ?ws + i"
      with new(2,4)[of i] show ?thesis
        by (simp add: nth_new ws'(2) del: map_map)
    qed
  next
    fix k assume "k < length (workers s')" "pc (workers s' ! k) \<noteq> W_exited"
    with split[of k] show "threadId (workers s' ! k) \<in> set (threads (pool s'))"
      using old new nth_new nth_old ws'(3) by auto
  next
    fix j k
    assume "j < length (workers s')" "k < length (workers s')" "j \<noteq> k"
      "pc (workers s' ! j) \<noteq> W_exited" "pc (workers s' ! k) \<noteq> W_exited"
    with split[of j] split[of k] show "threadId (workers s' ! j) \<noteq> threadId (workers s' ! k)"
      using old new nth_new nth_old by auto
  qed
qed

lemma registered_inv_step:
  assumes "registered_inv s" "count_inv s" "step a s = Some s'"
  shows "registered_inv s'"
  using assms(3,1,2)
  apply (elim stepE owner_callE owner_stepE owner_wakesE worker_stepE worker_wakesE)
  apply (elim submitTask_waitE
         | (rule registered_inv_start; assumption)
         | (auto simp add: registered_inv_def count_inv_def abort_def is_int_def
                   nth_list_update nth_append new_worker_def)[1])+
  done

lemma invariants_init:
  "mutex_inv init" "flag_inv init" "fifo_inv init" "empty_inv init" "wakeup_inv init"
  "count_inv init" "drain_inv init" "registered_inv init"
  by (simp_all add: init_def ThreadPool_ctor_def mutex_inv_def flag_inv_def fifo_inv_def
        empty_inv_def wakeup_inv_def count_inv_def drain_inv_def registered_inv_def
        size_t_of_int_def THREAD_MAX_THRESHOLD_def)

lemma invariants:
  assumes "reachable s"
  shows "mutex_inv s \<and> flag_inv s \<and> fifo_inv s \<and> empty_inv s \<and> wakeup_inv s
         \<and> count_inv s \<and> drain_inv s \<and> registered_inv s"
  using assms
proof (induction rule: reachable.induct)
  case reachable_init
  show ?case by (simp add: invariants_init)
next
  case (reachable_step s a s')
  then show ?case
    by (simp add: mutex_inv_step[of s a s'] flag_inv_step[of s a s'] fifo_inv_step[of s a s']
          empty_inv_step[of s a s'] wakeup_inv_step[of s a s'] count_inv_step[of s a s']
          drain_inv_step[of s a s'] registered_inv_step[of s a s'])
qed

section \<open>Runs on concrete inputs\<close>

lemmas run_defs = step_def init_def setMode_def checkRunningState_def ThreadPool_ctor_def
  start_def size_t_of_int_def unsigned_of_int_def is_int_def submitTask_wait_def
  submitTask_accept_def submitTask_reject_def submitTask_enqueue_def spawn_cond_def
  notFull_pred_def Result_ctor_def emplace_def erase_def take_task_def exit_not_running_def
  exit_idle_def idle_seconds_def THREAD_MAX_IDLE_TIME_def THREAD_MAX_THRESHOLD_def
  TASK_MAX_THRESHOLD_def second_def new_worker_def abort_def owner_step_def owner_wakes_def
  worker_step_def worker_wakes_def set_worker_def exec_def setVal_def release_def acquire_def
  get_def Any_of_def setTaskQueMaxThreshold_def setThreadSizeThreshold_def wake_def Let_def

lemmas concrete_defs = seven_def fresh_result_def seven_task_def boom_def
  unstarted_trace_def unstarted_done_def drained_trace_def drained_done_def
  taking_trace_def taking_state_def taken_state_def boom_trace_def boom_state_def
  over_trace_def over_state_def cached_trace_def cached_state_def idle_exit_trace_def
  retiring_trace_def retiring_state_def ifrun_state_def idle_round_def
  stuck_state_def locked_trace_def locked_state_def flag_written_state_def woken_trace_def
  woken_state_def notify_trace_def notify_state_def full_trace_def full_state_def idle_state_def
  spawning_trace_def spawning_state_def spawned_state_def executed_state_def

lemma run_unstarted: "run_from init unstarted_trace = Some unstarted_done"
  by (simp add: concrete_defs run_defs)

lemma run_drained: "run_from init drained_trace = Some drained_done"
  by (simp add: concrete_defs run_defs)

lemma run_taking: "run_from init taking_trace = Some taking_state"
  by (simp add: concrete_defs run_defs)

lemma run_taken: "run_from init (taking_trace @ [Worker_step 0]) = Some taken_state"
  by (simp add: concrete_defs run_defs)

lemma run_boom: "run_from init boom_trace = Some boom_state"
  by (simp add: concrete_defs run_defs)

lemma run_over: "run_from init over_trace = Some over_state"
  by (simp add: concrete_defs run_defs upt_rec)

lemma run_cached: "run_from init cached_trace = Some cached_state"
  by (simp add: concrete_defs run_defs)

lemma run_retiring: "run_from init retiring_trace = Some retiring_state"
  by (simp add: concrete_defs run_defs)

lemma run_idle_exit: "run_from init idle_exit_trace = Some stuck_state"
  unfolding idle_exit_trace_def run_from_append run_retiring
  by (simp add: concrete_defs run_defs)

lemma run_ifrun: "run_from init (locked_trace @ [Worker_step 0]) = Some ifrun_state"
  by (simp add: concrete_defs run_defs)

lemma run_locked: "run_from init locked_trace = Some locked_state"
  by (simp add: concrete_defs run_defs)

lemma run_flag_written: "run_from init (locked_trace @ [Call C_dtor]) = Some flag_written_state"
  by (simp add: concrete_defs run_defs)

lemma run_notify: "run_from init notify_trace = Some notify_state"
  by (simp add: concrete_defs run_defs)

lemma run_woken: "run_from init woken_trace = Some woken_state"
  by (simp add: concrete_defs run_defs)

lemma run_full: "run_from init full_trace = Some full_state"
  by (simp add: concrete_defs run_defs)

lemma run_idle: "run_from init [Call (C_make_task seven)] = Some idle_state"
  by (simp add: concrete_defs run_defs)

lemma run_spawning: "run_from init spawning_trace = Some spawning_state"
  by (simp add: concrete_defs run_defs)

lemma returned_inv_step:
  assumes "returned_inv s" "step a s = Some s'"
  shows "returned_inv s'"
  using assms(2,1)
  apply (elim stepE owner_callE owner_stepE owner_wakesE worker_stepE worker_wakesE)
  apply (elim submitTask_waitE | (auto simp add: returned_inv_def abort_def erase_def)[1])+
  done

lemma returned_inv_reachable:
  assumes "reachable s"
  shows "returned_inv s"
  using assms
proof (induction rule: reachable.induct)
  case reachable_init
  show ?case by (simp add: returned_inv_def init_def)
next
  case (reachable_step s a s')
  then show ?case by (simp add: returned_inv_step[of s a s'])
qed

section \<open>The claims\<close>

text \<open>
  C9. A value of type \<open>T\<close> stored into an \<open>Any\<close> and extracted as \<open>T\<close> comes back
  unchanged; extracted as any other type, \<open>cast_\<close> throws (the C string
  \<open>"type is unmatch!"\<close>) and returns no value.
\<close>

theorem C9_cast_roundtrip:
  "cast ty (Any_of ty v) = Inr v
   \<and> (ty' \<noteq> ty \<longrightarrow> cast ty' (Any_of ty v) = Inl (Throw ''type is unmatch!''))"
  by (simp add: cast_def Any_of_def)

theorem C9_cast_roundtrip_witness:
  "''std::string'' \<noteq> ''int''
   \<and> cast ''int'' (Any_of ''int'' (IntV 7)) = Inr (IntV 7)
   \<and> cast ''std::string'' (Any_of ''int'' (IntV 7)) = Inl (Throw ''type is unmatch!'')"
  using C9_cast_roundtrip[of "''int''" "IntV 7" "''std::string''"] by simp

text \<open>
  C6, as stated, fails: after the one publish the first \<open>get()\<close> returns the value, and
  leaves the Result as it was before the publish, with an empty \<open>any_\<close> and no resource
  in the semaphore; the second \<open>get()\<close> blocks.
\<close>

theorem C6_get_idempotent_counterexample:
  "get (setVal (Any_of ''int'' (IntV 7)) fresh_result)
     = Some (Any_of ''int'' (IntV 7), fresh_result)
   \<and> get fresh_result = None"
  by (simp add: get_def setVal_def acquire_def release_def fresh_result_def)

text \<open>
  C6, amended. For a valid Result with no unread publish, after one \<open>setVal\<close> the first
  \<open>get()\<close> returns the stored value without blocking, takes the resource of the
  semaphore and moves the value out; a further \<open>get()\<close> then blocks.
\<close>

theorem C6_get_once:
  assumes "isValid r" "resLimit (sem r) = 0"
  shows "get (setVal v r) = Some (v, r\<lparr>any := Any None\<rparr>)
         \<and> get (r\<lparr>any := Any None\<rparr>) = None"
  using assms by (simp add: get_def setVal_def acquire_def release_def)

theorem C6_get_once_witness:
  "isValid fresh_result \<and> resLimit (sem fresh_result) = 0
   \<and> get (setVal (Any_of ''int'' (IntV 7)) fresh_result)
       = Some (Any_of ''int'' (IntV 7), fresh_result\<lparr>any := Any None\<rparr>)
   \<and> get (fresh_result\<lparr>any := Any None\<rparr>) = None"
proof -
  have v: "isValid fresh_result" and l: "resLimit (sem fresh_result) = 0"
    by (simp_all add: fresh_result_def)
  from C6_get_once[OF v l, of "Any_of ''int'' (IntV 7)"] v l show ?thesis by simp
qed

text \<open>
  C2. The owner is in the \<open>wait_for\<close> of \<open>submitTask\<close> (line 77), the second has passed
  and the queue is still at its threshold: \<open>submitTask\<close> returns, the task is not put
  into the queue (the pool is as it was), and the Result built for the call is not
  valid. \<open>get()\<close> on a Result that is not valid returns \<open>Any("")\<close> at once, whatever
  the semaphore holds, and leaves the Result (its semaphore too) as it was.
\<close>

theorem C2_overflow_invalid_result:
  assumes "\<not> aborted s" "owner s = S_woken (Some a) dl" "taskQueMtx s = None"
    "a < length (tasks s)" "dl \<le> now s" "\<not> notFull_pred (pool s)"
    "r = \<lparr>any = Any None, sem = \<lparr>resLimit = 0\<rparr>, task = Some a, isValid = False\<rparr>"
  shows "step Owner_step s
           = Some (s\<lparr>results := results s @ [r],
                     tasks := (tasks s)[a := (tasks s ! a)\<lparr>result := Some (length (results s))\<rparr>],
                     taskQueMtx := None, owner := U_idle\<rparr>)
         \<and> \<not> isValid r
         \<and> get r = Some (Any_of ''const char*'' (CStrV ''''), r)
         \<and> (\<forall>r'. \<not> isValid r' \<longrightarrow> get r' = Some (Any_of ''const char*'' (CStrV ''''), r'))"
  using assms
  by (simp add: step_def owner_step_def submitTask_wait_def submitTask_reject_def
        Result_ctor_def get_def)

theorem C2_overflow_invalid_result_witness:
  "\<not> aborted full_state \<and> owner full_state = S_woken (Some 0) second
   \<and> taskQueMtx full_state = None \<and> 0 < length (tasks full_state)
   \<and> second \<le> now full_state \<and> \<not> notFull_pred (pool full_state)
   \<and> step Owner_step full_state
       = Some (full_state\<lparr>results := [fresh_result\<lparr>isValid := False\<rparr>],
                          tasks := [seven_task],
                          taskQueMtx := None, owner := U_idle\<rparr>)
   \<and> taskQue (pool full_state) = []
   \<and> \<not> isValid (fresh_result\<lparr>isValid := False\<rparr>)
   \<and> get (fresh_result\<lparr>isValid := False\<rparr>)
       = Some (Any_of ''const char*'' (CStrV ''''), fresh_result\<lparr>isValid := False\<rparr>)
   \<and> get (fresh_result\<lparr>isValid := False, sem := \<lparr>resLimit = 1\<rparr>\<rparr>)
       = Some (Any_of ''const char*'' (CStrV ''''),
               fresh_result\<lparr>isValid := False, sem := \<lparr>resLimit = 1\<rparr>\<rparr>)"
proof -
  have h: "\<not> aborted full_state" "owner full_state = S_woken (Some 0) second"
    "taskQueMtx full_state = None" "0 < length (tasks full_state)"
    "second \<le> now full_state" "\<not> notFull_pred (pool full_state)"
    by (simp_all add: full_state_def init_def ThreadPool_ctor_def notFull_pred_def
          size_t_of_int_def)
  have r: "fresh_result\<lparr>isValid := False\<rparr>
           = \<lparr>any = Any None, sem = \<lparr>resLimit = 0\<rparr>, task = Some 0, isValid = False\<rparr>"
    by (simp add: fresh_result_def)
  from C2_overflow_invalid_result[OF h r] h show ?thesis
    by (simp add: full_state_def init_def seven_task_def ThreadPool_ctor_def fresh_result_def)
qed

text \<open>
  C10, as stated, fails in its last part: a cached pool that is never started. The
  flag is false and the queue below its threshold; \<open>submitTask\<close> puts the task in the
  queue, returns a valid Result and, by lines 94-108, creates and starts a thread. That
  thread takes the task and runs it: the Result holds the value 7, which \<open>get\<close>
  returns, and the flag is false throughout.
\<close>

theorem C10_spawn_counterexample:
  "run_from init spawning_trace = Some spawning_state
   \<and> \<not> aborted spawning_state \<and> owner spawning_state = U_idle
   \<and> taskQueMtx spawning_state = None
   \<and> \<not> isPoolRunning (pool spawning_state) \<and> notFull_pred (pool spawning_state)
   \<and> workers spawning_state = []
   \<and> step (Call (C_submitTask (Some 0))) spawning_state = Some spawned_state
   \<and> \<not> isPoolRunning (pool spawned_state)
   \<and> taskQue (pool spawned_state) = [Some 0]
   \<and> results spawned_state = [fresh_result] \<and> isValid fresh_result
   \<and> workers spawned_state = [new_worker 0]
   \<and> run_from spawned_state [Worker_step 0, Worker_step 0, Worker_step 0, Worker_step 0]
       = Some executed_state
   \<and> \<not> isPoolRunning (pool executed_state)
   \<and> taken executed_state = [Some 0]
   \<and> get (results executed_state ! 0)
       = Some (Any_of ''int'' (IntV 7), fresh_result\<lparr>any := Any None\<rparr>)"
  by (simp add: concrete_defs run_defs)

text \<open>
  C10, amended. \<open>submitTask\<close> does not read \<open>isPoolRunning_\<close>. Called on a pool that is not
  running, with the queue below its threshold (and the mutex free), it puts the task at
  the back of the queue and returns a valid Result bound to the task; nothing is a
  \<open>NotRunning\<close> failure, the flag stays false, and the same call with the flag set yields
  the same state. The threads waiting on \<open>notEmpty_\<close> are notified. The call creates and
  starts one thread, with the next thread id, when the test of lines 94-96 holds after
  the task has been counted: the mode is cached, \<open>taskSize_ > idleThreadSize_\<close> and
  \<open>curThreadSize_ < threadSizeThreshold_\<close>. Otherwise, and so always in fixed mode, it
  creates none.
\<close>

theorem C10_submit_ignores_running:
  assumes "\<not> aborted s" "owner s = U_idle" "taskQueMtx s = None" "a < length (tasks s)"
    "\<not> isPoolRunning (pool s)" "notFull_pred (pool s)"
  shows "\<exists>s' r. step (Call (C_submitTask (Some a))) s = Some s'
            \<and> \<not> aborted s' \<and> owner s' = U_idle
            \<and> taskQue (pool s') = taskQue (pool s) @ [Some a]
            \<and> accepted s' = accepted s @ [Some a]
            \<and> results s' = results s @ [r] \<and> isValid r \<and> task r = Some a
            \<and> result (tasks s' ! a) = Some (length (results s))
            \<and> \<not> isPoolRunning (pool s')
            \<and> workers s'
                = map wake (workers s)
                  @ (if poolMode (pool s) = MODE_CACHED
                        \<and> unsigned_of_int (idleThreadSize (pool s))
                            < (taskSize (pool s) + 1) mod 2 ^ 32
                        \<and> size_t_of_int (curThreadSize (pool s)) < threadSizeThreshold (pool s)
                     then [new_worker (generatedId s)] else [])
            \<and> (poolMode (pool s) = MODE_FIXED \<longrightarrow> length (workers s') = length (workers s))
            \<and> step (Call (C_submitTask (Some a))) (s\<lparr>pool := (pool s)\<lparr>isPoolRunning := True\<rparr>\<rparr>)
                = Some (s'\<lparr>pool := (pool s')\<lparr>isPoolRunning := True\<rparr>\<rparr>)"
  using assms
  by (auto simp add: step_def submitTask_wait_def submitTask_accept_def submitTask_enqueue_def
        Result_ctor_def notFull_pred_def spawn_cond_def Let_def)

theorem C10_submit_ignores_running_witness:
  "reachable idle_state \<and> reachable spawning_state
   \<and> \<not> aborted idle_state \<and> owner idle_state = U_idle \<and> taskQueMtx idle_state = None
   \<and> 0 < length (tasks idle_state) \<and> \<not> isPoolRunning (pool idle_state)
   \<and> notFull_pred (pool idle_state) \<and> poolMode (pool idle_state) = MODE_FIXED
   \<and> workers idle_state = []
   \<and> (\<exists>s' r. step (Call (C_submitTask (Some 0))) idle_state = Some s'
            \<and> taskQue (pool s') = [Some 0]
            \<and> results s' = [r] \<and> isValid r \<and> task r = Some 0
            \<and> \<not> isPoolRunning (pool s')
            \<and> workers s' = [] \<and> length (workers s') = 0)
   \<and> \<not> aborted spawning_state \<and> owner spawning_state = U_idle
   \<and> taskQueMtx spawning_state = None
   \<and> 0 < length (tasks spawning_state) \<and> \<not> isPoolRunning (pool spawning_state)
   \<and> notFull_pred (pool spawning_state) \<and> poolMode (pool spawning_state) = MODE_CACHED
   \<and> workers spawning_state = []
   \<and> (\<exists>s' r. step (Call (C_submitTask (Some 0))) spawning_state = Some s'
            \<and> taskQue (pool s') = [Some 0]
            \<and> results s' = [r] \<and> isValid r \<and> task r = Some 0
            \<and> \<not> isPoolRunning (pool s')
            \<and> workers s' = [new_worker 0])"
proof -
  have r1: "reachable idle_state"
    using reachable_run_from[OF reachable_init run_idle] .
  have r2: "reachable spawning_state"
    using reachable_run_from[OF reachable_init run_spawning] .
  have h: "\<not> aborted idle_state" "owner idle_state = U_idle" "taskQueMtx idle_state = None"
    "0 < length (tasks idle_state)" "\<not> isPoolRunning (pool idle_state)"
    "notFull_pred (pool idle_state)"
    by (simp_all add: idle_state_def init_def ThreadPool_ctor_def notFull_pred_def
          size_t_of_int_def TASK_MAX_THRESHOLD_def)
  have m: "poolMode (pool idle_state) = MODE_FIXED" "workers idle_state = []"
    "taskQue (pool idle_state) = []" "results idle_state = []"
    by (simp_all add: idle_state_def init_def ThreadPool_ctor_def)
  have k: "\<not> aborted spawning_state" "owner spawning_state = U_idle"
    "taskQueMtx spawning_state = None"
    "0 < length (tasks spawning_state)" "\<not> isPoolRunning (pool spawning_state)"
    "notFull_pred (pool spawning_state)"
    by (simp_all add: spawning_state_def init_def ThreadPool_ctor_def notFull_pred_def
          size_t_of_int_def TASK_MAX_THRESHOLD_def)
  have n: "poolMode (pool spawning_state) = MODE_CACHED" "workers spawning_state = []"
    "taskQue (pool spawning_state) = []" "results spawning_state = []"
    "generatedId spawning_state = 0"
    "unsigned_of_int (idleThreadSize (pool spawning_state))
       < (taskSize (pool spawning_state) + 1) mod 2 ^ 32"
    "size_t_of_int (curThreadSize (pool spawning_state))
       < threadSizeThreshold (pool spawning_state)"
    by (simp_all add: spawning_state_def init_def ThreadPool_ctor_def unsigned_of_int_def
          size_t_of_int_def THREAD_MAX_THRESHOLD_def)
  from C10_submit_ignores_running[OF h] m
  have a: "\<exists>s' r. step (Call (C_submitTask (Some 0))) idle_state = Some s'
            \<and> taskQue (pool s') = [Some 0]
            \<and> results s' = [r] \<and> isValid r \<and> task r = Some 0
            \<and> \<not> isPoolRunning (pool s')
            \<and> workers s' = [] \<and> length (workers s') = 0"
    by auto
  from C10_submit_ignores_running[OF k] n
  have b: "\<exists>s' r. step (Call (C_submitTask (Some 0))) spawning_state = Some s'
            \<and> taskQue (pool s') = [Some 0]
            \<and> results s' = [r] \<and> isValid r \<and> task r = Some 0
            \<and> \<not> isPoolRunning (pool s')
            \<and> workers s' = [new_worker 0]"
    by auto
  from r1 r2 h m k n a b show ?thesis
    by simp
qed

text \<open>
  C5, as stated, fails: the thread at line 244 with a task whose \<open>run()\<close> throws. The
  exception leaves \<open>exec\<close> and \<open>threadFunc\<close>; the process is terminated, and the Result of
  the task is as it was, with nothing published.
\<close>

theorem C5_exception_counterexample:
  "run_from init boom_trace = Some boom_state
   \<and> pc (workers boom_state ! 0) = W_exec (Some 0)
   \<and> run (tasks boom_state ! 0) = Inl (Throw ''boom'')
   \<and> exec (tasks boom_state ! 0) (results boom_state) = Inl (Throw ''boom'')
   \<and> step (Worker_step 0) boom_state = Some (abort boom_state)
   \<and> aborted (abort boom_state)
   \<and> results (abort boom_state) = [fresh_result]"
  by (simp add: concrete_defs run_defs)

text \<open>
  C5, amended. A thread runs at line 244 a task that is bound to a Result. When \<open>run()\<close>
  throws, the exception leaves \<open>exec\<close> before \<open>setVal\<close> is called, and leaves
  \<open>threadFunc\<close>: nothing is published and the process is terminated. When \<open>run()\<close>
  returns a value, the value is published to the Result and the thread goes on.
\<close>

theorem C5_exception_propagates:
  assumes "\<not> aborted s" "k < length (workers s)" "pc (workers s ! k) = W_exec (Some a)"
    "a < length (tasks s)" "result (tasks s ! a) = Some r"
  shows "(run (tasks s ! a) = Inl e
            \<longrightarrow> exec (tasks s ! a) (results s) = Inl e
                \<and> step (Worker_step k) s = Some (abort s)
                \<and> results (abort s) = results s \<and> aborted (abort s))
         \<and> (run (tasks s ! a) = Inr v
            \<longrightarrow> step (Worker_step k) s
                  = Some (s\<lparr>results := (results s)[r := setVal v (results s ! r)],
                            workers := (workers s)[k := (workers s ! k)\<lparr>pc := W_done\<rparr>]\<rparr>))"
  using assms
  by (simp add: step_def worker_step_def exec_def set_worker_def abort_def Let_def)

theorem C5_exception_propagates_witness:
  "\<not> aborted boom_state \<and> 0 < length (workers boom_state)
   \<and> pc (workers boom_state ! 0) = W_exec (Some 0) \<and> 0 < length (tasks boom_state)
   \<and> result (tasks boom_state ! 0) = Some 0
   \<and> run (tasks boom_state ! 0) = Inl (Throw ''boom'')
   \<and> step (Worker_step 0) boom_state = Some (abort boom_state)
   \<and> \<not> aborted taken_state \<and> 0 < length (workers taken_state)
   \<and> pc (workers taken_state ! 0) = W_exec (Some 0) \<and> 0 < length (tasks taken_state)
   \<and> result (tasks taken_state ! 0) = Some 0
   \<and> run (tasks taken_state ! 0) = Inr (Any_of ''int'' (IntV 7))
   \<and> step (Worker_step 0) taken_state
       = Some (taken_state\<lparr>results := [setVal (Any_of ''int'' (IntV 7)) fresh_result],
                 workers := [\<lparr>threadId = 0, pc = W_done, lastTime = 0\<rparr>]\<rparr>)"
proof -
  have b: "\<not> aborted boom_state" "0 < length (workers boom_state)"
    "pc (workers boom_state ! 0) = W_exec (Some 0)" "0 < length (tasks boom_state)"
    "result (tasks boom_state ! 0) = Some 0"
    and rb: "run (tasks boom_state ! 0) = Inl (Throw ''boom'')"
    by (simp_all add: concrete_defs init_def)
  have t: "\<not> aborted taken_state" "0 < length (workers taken_state)"
    "pc (workers taken_state ! 0) = W_exec (Some 0)" "0 < length (tasks taken_state)"
    "result (tasks taken_state ! 0) = Some 0"
    and rt: "run (tasks taken_state ! 0) = Inr (Any_of ''int'' (IntV 7))"
    by (simp_all add: concrete_defs init_def)
  from C5_exception_propagates[OF b, of "Throw ''boom''"] rb
  have 1: "step (Worker_step 0) boom_state = Some (abort boom_state)"
    by simp
  from C5_exception_propagates[OF t, of _ "Any_of ''int'' (IntV 7)"] rt
  have 2: "step (Worker_step 0) taken_state
       = Some (taken_state\<lparr>results := [setVal (Any_of ''int'' (IntV 7)) fresh_result],
                 workers := [\<lparr>threadId = 0, pc = W_done, lastTime = 0\<rparr>]\<rparr>)"
    by (simp add: concrete_defs init_def)
  from b rb t rt 1 2 show ?thesis by simp
qed

text \<open>
  C3. In every state the process reaches, the tasks accepted into the queue are, in
  order, those taken out of it followed by those still in it: the i-th task taken is
  the i-th task accepted. A thread at line 165 with the queue not empty takes the task
  at the front: it takes one from \<open>idleThreadSize_\<close>, pops that one task, takes one from
  \<open>taskSize_\<close>, notifies \<open>notEmpty_\<close> if the queue is still not empty, and notifies
  \<open>notFull_\<close>.
\<close>

theorem C3_fifo:
  assumes "reachable s"
  shows "accepted s = taken s @ taskQue (pool s)
         \<and> (\<forall>i < length (taken s). taken s ! i = accepted s ! i)
         \<and> (\<forall>k tp q.
               \<not> aborted s \<and> k < length (workers s) \<and> pc (workers s ! k) = W_while
               \<and> taskQue (pool s) = tp # q
               \<longrightarrow> take_task (pool s)
                     = Some (tp,
                             (pool s)\<lparr>idleThreadSize := idleThreadSize (pool s) - 1, taskQue := q,
                                      taskSize := (taskSize (pool s) + 2 ^ 32 - 1) mod 2 ^ 32\<rparr>,
                             (if q \<noteq> [] then [NotEmpty] else []) @ [NotFull])
                   \<and> step (Worker_step k) s
                     = Some (s\<lparr>pool := (pool s)\<lparr>idleThreadSize := idleThreadSize (pool s) - 1,
                                                taskQue := q,
                                                taskSize := (taskSize (pool s) + 2 ^ 32 - 1) mod 2 ^ 32\<rparr>,
                               taken := taken s @ [tp], taskQueMtx := None,
                               workers := (if q \<noteq> [] then map wake else id)
                                            ((workers s)[k := (workers s ! k)\<lparr>pc := W_exec tp\<rparr>]),
                               owner := owner_notified NotFull (owner s)\<rparr>))"
proof -
  from assms have f: "accepted s = taken s @ taskQue (pool s)"
    using invariants[of s] by (simp add: fifo_inv_def)
  have n: "\<forall>i < length (taken s). taken s ! i = accepted s ! i"
    by (simp add: f nth_append)
  have t: "take_task (pool s)
             = Some (tp,
                     (pool s)\<lparr>idleThreadSize := idleThreadSize (pool s) - 1, taskQue := q,
                              taskSize := (taskSize (pool s) + 2 ^ 32 - 1) mod 2 ^ 32\<rparr>,
                     (if q \<noteq> [] then [NotEmpty] else []) @ [NotFull])
           \<and> step (Worker_step k) s
             = Some (s\<lparr>pool := (pool s)\<lparr>idleThreadSize := idleThreadSize (pool s) - 1,
                                        taskQue := q,
                                        taskSize := (taskSize (pool s) + 2 ^ 32 - 1) mod 2 ^ 32\<rparr>,
                       taken := taken s @ [tp], taskQueMtx := None,
                       workers := (if q \<noteq> [] then map wake else id)
                                    ((workers s)[k := (workers s ! k)\<lparr>pc := W_exec tp\<rparr>]),
                       owner := owner_notified NotFull (owner s)\<rparr>)"
    if "\<not> aborted s" "k < length (workers s)" "pc (workers s ! k) = W_while"
      "taskQue (pool s) = tp # q" for k tp q
    using that
    by (simp add: step_def worker_step_def take_task_def set_worker_def Let_def)
  from f n t show ?thesis by blast
qed

theorem C3_fifo_witness:
  "reachable taking_state \<and> reachable taken_state
   \<and> \<not> aborted taking_state \<and> 0 < length (workers taking_state)
   \<and> pc (workers taking_state ! 0) = W_while \<and> taskQue (pool taking_state) = [Some 0]
   \<and> step (Worker_step 0) taking_state = Some taken_state
   \<and> accepted taken_state = taken taken_state @ taskQue (pool taken_state)
   \<and> 0 < length (taken taken_state)
   \<and> taken taken_state ! 0 = accepted taken_state ! 0"
proof -
  have r1: "reachable taking_state"
    using reachable_run_from[OF reachable_init run_taking] .
  have r2: "reachable taken_state"
    using reachable_run_from[OF reachable_init run_taken] .
  have h: "\<not> aborted taking_state" "0 < length (workers taking_state)"
    "pc (workers taking_state ! 0) = W_while" "taskQue (pool taking_state) = [Some 0]"
    by (simp_all add: concrete_defs init_def)
  have l: "0 < length (taken taken_state)"
    by (simp add: concrete_defs init_def)
  from C3_fifo[OF r1] h
  have s: "step (Worker_step 0) taking_state = Some taken_state"
    by (simp add: concrete_defs init_def ThreadPool_ctor_def)
  from C3_fifo[OF r2] l
  have "accepted taken_state = taken taken_state @ taskQue (pool taken_state)"
    "taken taken_state ! 0 = accepted taken_state ! 0"
    by blast+
  with r1 r2 h l s show ?thesis by simp
qed

text \<open>
  C4, as stated, fails: a cached pool whose thread limit was set to 1 and that is
  started with 2 threads is running with \<open>curThreadSize_\<close> 2 above the limit 1.
\<close>

theorem C4_max_workers_counterexample:
  "reachable over_state
   \<and> poolMode (pool over_state) = MODE_CACHED \<and> isPoolRunning (pool over_state)
   \<and> initThreadSize (pool over_state) = 2 \<and> curThreadSize (pool over_state) = 2
   \<and> threadSizeThreshold (pool over_state) = 1
   \<and> \<not> curThreadSize (pool over_state) \<le> int (threadSizeThreshold (pool over_state))"
  using reachable_run_from[OF reachable_init run_over]
  by (simp add: over_state_def init_def ThreadPool_ctor_def)

text \<open>
  C4, amended. In cached mode, in every state the process reaches while the pool is
  running, \<open>initThreadSize_ \<le> curThreadSize_ \<le> max(initThreadSize_, threadSizeThreshold_)\<close>.
  \<open>submitTask\<close> creates a thread only when the mode is cached, \<open>taskSize_\<close> (with the new
  task) is above \<open>idleThreadSize_\<close> and \<open>curThreadSize_\<close> is below \<open>threadSizeThreshold_\<close>;
  an idle thread leaves by line 195 only when \<open>curThreadSize_\<close> is above
  \<open>initThreadSize_\<close>.
\<close>

theorem C4_worker_bounds:
  assumes "reachable s" "poolMode (pool s) = MODE_CACHED" "isPoolRunning (pool s)"
  shows "int (initThreadSize (pool s)) \<le> curThreadSize (pool s)
         \<and> curThreadSize (pool s)
             \<le> max (int (initThreadSize (pool s))) (int (threadSizeThreshold (pool s)))
         \<and> (\<forall>tp p gid i sigs.
               submitTask_enqueue tp (pool s) (generatedId s) = (p, gid, Some i, sigs)
               \<longrightarrow> unsigned_of_int (idleThreadSize (pool s)) < taskSize p
                   \<and> curThreadSize (pool s) < int (threadSizeThreshold (pool s))
                   \<and> curThreadSize p = curThreadSize (pool s) + 1)
         \<and> (\<forall>i t0 t1 p sigs.
               exit_idle i t0 t1 (pool s) = Some (p, sigs)
               \<longrightarrow> int (initThreadSize (pool s)) < curThreadSize (pool s)
                   \<and> curThreadSize p = curThreadSize (pool s) - 1)"
proof -
  from assms(1) have c: "count_inv s" and f: "flag_inv s"
    using invariants[of s] by simp_all
  from f assms(3) have st: "started s"
    by (simp add: flag_inv_def)
  from c have sz: "size_t_of_int (curThreadSize (pool s)) = nat (curThreadSize (pool s))"
    and nn: "0 \<le> curThreadSize (pool s)"
    by (simp_all add: count_inv_def size_t_of_int_nat)
  from c st have b: "int (initThreadSize (pool s)) \<le> curThreadSize (pool s)"
    "curThreadSize (pool s)
       \<le> max (int (initThreadSize (pool s))) (int (threadSizeThreshold (pool s)))"
    by (simp_all add: count_inv_def)
  have sp: "unsigned_of_int (idleThreadSize (pool s)) < taskSize p
            \<and> curThreadSize (pool s) < int (threadSizeThreshold (pool s))
            \<and> curThreadSize p = curThreadSize (pool s) + 1"
    if "submitTask_enqueue tp (pool s) (generatedId s) = (p, gid, Some i, sigs)"
    for tp p gid i sigs
    using that sz nn
    by (auto simp add: submitTask_enqueue_def spawn_cond_def Let_def split: if_splits)
  have ex: "int (initThreadSize (pool s)) < curThreadSize (pool s)
            \<and> curThreadSize p = curThreadSize (pool s) - 1"
    if "exit_idle i t0 t1 (pool s) = Some (p, sigs)" for i t0 t1 p sigs
    using that sz nn
    by (auto simp add: exit_idle_def split: if_splits)
  from b sp ex show ?thesis by blast
qed

theorem C4_worker_bounds_witness:
  "reachable cached_state \<and> poolMode (pool cached_state) = MODE_CACHED
   \<and> isPoolRunning (pool cached_state)
   \<and> initThreadSize (pool cached_state) = 0 \<and> curThreadSize (pool cached_state) = 1
   \<and> threadSizeThreshold (pool cached_state) = 100
   \<and> int (initThreadSize (pool cached_state)) \<le> curThreadSize (pool cached_state)
   \<and> curThreadSize (pool cached_state)
       \<le> max (int (initThreadSize (pool cached_state)))
             (int (threadSizeThreshold (pool cached_state)))
   \<and> submitTask_enqueue (Some 0) (pool cached_state) (generatedId cached_state)
       = ((pool cached_state)\<lparr>taskQue := [Some 0, Some 0], taskSize := 2, threads := [0, 1],
                                curThreadSize := 2, idleThreadSize := 2\<rparr>,
          2, Some 1, [NotEmpty])
   \<and> curThreadSize (pool cached_state) < int (threadSizeThreshold (pool cached_state))
   \<and> exit_idle 0 (10 * second) 0 (pool cached_state)
       = Some ((pool cached_state)\<lparr>threads := [], curThreadSize := 0, idleThreadSize := 0\<rparr>, [])
   \<and> int (initThreadSize (pool cached_state)) < curThreadSize (pool cached_state)"
proof -
  have r: "reachable cached_state"
    using reachable_run_from[OF reachable_init run_cached] .
  have h: "poolMode (pool cached_state) = MODE_CACHED" "isPoolRunning (pool cached_state)"
    by (simp_all add: cached_state_def init_def ThreadPool_ctor_def)
  have v: "initThreadSize (pool cached_state) = 0" "curThreadSize (pool cached_state) = 1"
    "threadSizeThreshold (pool cached_state) = 100"
    by (simp_all add: cached_state_def init_def ThreadPool_ctor_def size_t_of_int_def
          THREAD_MAX_THRESHOLD_def)
  have sp: "submitTask_enqueue (Some 0) (pool cached_state) (generatedId cached_state)
       = ((pool cached_state)\<lparr>taskQue := [Some 0, Some 0], taskSize := 2, threads := [0, 1],
                                curThreadSize := 2, idleThreadSize := 2\<rparr>,
          2, Some 1, [NotEmpty])"
    by (simp add: cached_state_def init_def ThreadPool_ctor_def submitTask_enqueue_def
          spawn_cond_def unsigned_of_int_def size_t_of_int_def THREAD_MAX_THRESHOLD_def
          emplace_def Let_def)
  have ex: "exit_idle 0 (10 * second) 0 (pool cached_state)
       = Some ((pool cached_state)\<lparr>threads := [], curThreadSize := 0, idleThreadSize := 0\<rparr>, [])"
    by (simp add: cached_state_def init_def ThreadPool_ctor_def exit_idle_def idle_seconds_def
          second_def THREAD_MAX_IDLE_TIME_def size_t_of_int_def erase_def)
  from C4_worker_bounds[OF r h] sp ex
  have "int (initThreadSize (pool cached_state)) \<le> curThreadSize (pool cached_state)"
    "curThreadSize (pool cached_state)
       \<le> max (int (initThreadSize (pool cached_state)))
             (int (threadSizeThreshold (pool cached_state)))"
    "curThreadSize (pool cached_state) < int (threadSizeThreshold (pool cached_state))"
    "int (initThreadSize (pool cached_state)) < curThreadSize (pool cached_state)"
    by blast+
  with r h v sp ex show ?thesis by simp
qed

text \<open>
  C7, as stated, fails: the destructor writes \<open>isPoolRunning_\<close> at line 28, before it
  takes the mutex at line 41. Here it writes the flag while a worker holds the mutex.
\<close>

theorem C7_flag_write_counterexample:
  "reachable locked_state \<and> isPoolRunning (pool locked_state)
   \<and> taskQueMtx locked_state = Some (Worker 0)
   \<and> step (Call C_dtor) locked_state = Some flag_written_state
   \<and> \<not> isPoolRunning (pool flag_written_state)
   \<and> owner flag_written_state = D_lock
   \<and> taskQueMtx flag_written_state = Some (Worker 0)"
  using reachable_run_from[OF reachable_init run_locked]
  by (simp add: concrete_defs run_defs)

text \<open>
  C7, amended. The destructor writes the flag before it takes the mutex; from then on
  the flag stays false. It takes the mutex next, and issues the \<open>notify_all\<close> on
  \<open>notEmpty_\<close> with the mutex held, having released nothing in between. While it is at
  the \<open>notify_all\<close> and ever after, no worker is at line 176 about to wait; the
  \<open>notify_all\<close> wakes every worker that waits on \<open>notEmpty_\<close>, and after it none is
  blocked there: a worker that looks at the flag again finds it false.
\<close>

theorem C7_broadcast_under_lock:
  assumes "reachable s"
  shows "(in_dtor (owner s) \<longrightarrow> \<not> isPoolRunning (pool s))
         \<and> (owner s = D_lock \<longrightarrow> taskQueMtx s \<noteq> Some Owner)
         \<and> (owner s = D_notify
              \<longrightarrow> taskQueMtx s = Some Owner
                  \<and> (\<not> aborted s
                       \<longrightarrow> step Owner_step s
                            = Some (s\<lparr>workers := map wake (workers s), owner := D_pred\<rparr>)))
         \<and> (owner s = D_notify \<or> after_broadcast (owner s)
              \<longrightarrow> (\<forall>k < length (workers s). pc (workers s ! k) \<noteq> W_mode))
         \<and> (after_broadcast (owner s)
              \<longrightarrow> (\<forall>k < length (workers s). \<not> waiting (pc (workers s ! k))))"
proof -
  from assms have m: "mutex_inv s" and f: "flag_inv s" and w: "wakeup_inv s"
    using invariants[of s] by simp_all
  from f have 1: "in_dtor (owner s) \<longrightarrow> \<not> isPoolRunning (pool s)"
    by (simp add: flag_inv_def)
  from m have 2: "owner s = D_lock \<longrightarrow> taskQueMtx s \<noteq> Some Owner"
    by (auto simp add: mutex_inv_def)
  from m have 3: "owner s = D_notify \<longrightarrow> taskQueMtx s = Some Owner"
    by (auto simp add: mutex_inv_def split: option.splits thread.splits)
  have 4: "owner s = D_notify \<longrightarrow> \<not> aborted s
       \<longrightarrow> step Owner_step s = Some (s\<lparr>workers := map wake (workers s), owner := D_pred\<rparr>)"
    by (simp add: step_def owner_step_def)
  from w have 5: "owner s = D_notify \<or> after_broadcast (owner s)
              \<longrightarrow> (\<forall>k < length (workers s). pc (workers s ! k) \<noteq> W_mode)"
    by (auto simp add: wakeup_inv_def)
  from w have 6: "after_broadcast (owner s)
              \<longrightarrow> (\<forall>k < length (workers s). \<not> waiting (pc (workers s ! k)))"
    by (simp add: wakeup_inv_def)
  from 1 2 3 4 5 6 show ?thesis by blast
qed

theorem C7_broadcast_under_lock_witness:
  "reachable flag_written_state \<and> owner flag_written_state = D_lock
   \<and> in_dtor (owner flag_written_state) \<and> \<not> isPoolRunning (pool flag_written_state)
   \<and> taskQueMtx flag_written_state \<noteq> Some Owner
   \<and> reachable notify_state \<and> owner notify_state = D_notify \<and> \<not> aborted notify_state
   \<and> pc (workers notify_state ! 0) = W_wait
   \<and> taskQueMtx notify_state = Some Owner
   \<and> step Owner_step notify_state = Some woken_state
   \<and> reachable woken_state \<and> after_broadcast (owner woken_state)
   \<and> 0 < length (workers woken_state)
   \<and> pc (workers woken_state ! 0) = W_woken
   \<and> pc (workers woken_state ! 0) \<noteq> W_mode
   \<and> \<not> waiting (pc (workers woken_state ! 0))
   \<and> \<not> isPoolRunning (pool woken_state)"
proof -
  have r1: "reachable flag_written_state"
    using reachable_run_from[OF reachable_init run_flag_written] .
  have r2: "reachable woken_state"
    using reachable_run_from[OF reachable_init run_woken] .
  have r3: "reachable notify_state"
    using reachable_run_from[OF reachable_init run_notify] .
  have h1: "owner flag_written_state = D_lock" "in_dtor (owner flag_written_state)"
    by (simp_all add: concrete_defs init_def)
  have h2: "after_broadcast (owner woken_state)" "0 < length (workers woken_state)"
    "in_dtor (owner woken_state)" "pc (workers woken_state ! 0) = W_woken"
    by (simp_all add: concrete_defs init_def)
  have h3: "owner notify_state = D_notify" "\<not> aborted notify_state"
    "pc (workers notify_state ! 0) = W_wait"
    by (simp_all add: concrete_defs init_def)
  have e: "notify_state\<lparr>workers := map wake (workers notify_state), owner := D_pred\<rparr> = woken_state"
    by (simp add: concrete_defs init_def wake_def)
  from C7_broadcast_under_lock[OF r1] h1
  have c1: "\<not> isPoolRunning (pool flag_written_state)" "taskQueMtx flag_written_state \<noteq> Some Owner"
    by blast+
  from C7_broadcast_under_lock[OF r2] h2
  have c2: "pc (workers woken_state ! 0) \<noteq> W_mode" "\<not> waiting (pc (workers woken_state ! 0))"
    "\<not> isPoolRunning (pool woken_state)"
    by blast+
  from C7_broadcast_under_lock[OF r3] h3 e
  have c3: "taskQueMtx notify_state = Some Owner" "step Owner_step notify_state = Some woken_state"
    by simp_all
  from r1 r2 r3 h1 h2 h3 c1 c2 c3 show ?thesis by simp
qed

text \<open>
  C1, as stated, fails: a pool that is never started accepts a task, and its
  destructor returns at once, \<open>threads_\<close> being empty, with the task still in the queue.
\<close>

theorem C1_unstarted_counterexample:
  "run_from init unstarted_trace = Some unstarted_done
   \<and> reachable unstarted_done
   \<and> owner unstarted_done = D_returned
   \<and> threads (pool unstarted_done) = []
   \<and> taskQue (pool unstarted_done) = [Some 0]
   \<and> taken unstarted_done = []"
  using reachable_run_from[OF reachable_init run_unstarted] run_unstarted
  by (simp add: concrete_defs init_def ThreadPool_ctor_def)

text \<open>
  C1, amended. When the destructor has returned, \<open>threads_\<close> is empty and every thread
  of the pool has returned. A thread is at line 168, where alone the flag is read and
  from where alone it leaves by the shutdown path, only with the queue empty. If the
  pool was started with at least one thread, then when the destructor has returned
  the queue is empty as well: every task that was accepted has been taken by a thread,
  and that thread has since returned.
\<close>

theorem C1_shutdown_drains:
  assumes "reachable s"
  shows "(owner s = D_returned
            \<longrightarrow> threads (pool s) = []
                \<and> (\<forall>k < length (workers s). pc (workers s ! k) = W_exited))
         \<and> (\<forall>k < length (workers s).
               pc (workers s ! k) = W_ifrun \<longrightarrow> taskQue (pool s) = [])
         \<and> (owner s = D_returned \<and> started s \<and> 0 < initThreadSize (pool s)
            \<longrightarrow> taskQue (pool s) = [] \<and> taken s = accepted s)"
proof -
  from assms have e: "empty_inv s" and c: "count_inv s" and d: "drain_inv s"
    and g: "registered_inv s" and f: "fifo_inv s"
    using invariants[of s] by simp_all
  from assms have r: "returned_inv s"
    by (rule returned_inv_reachable)
  have 1: "threads (pool s) = [] \<and> (\<forall>k < length (workers s). pc (workers s ! k) = W_exited)"
    if "owner s = D_returned"
  proof -
    from r that have t: "threads (pool s) = []"
      by (simp add: returned_inv_def)
    with g show ?thesis
      by (auto simp add: registered_inv_def)
  qed
  from e have 2: "\<forall>k < length (workers s). pc (workers s ! k) = W_ifrun \<longrightarrow> taskQue (pool s) = []"
    by (auto simp add: empty_inv_def)
  have 3: "taskQue (pool s) = [] \<and> taken s = accepted s"
    if "owner s = D_returned" "started s" "0 < initThreadSize (pool s)"
  proof -
    from 1 that have t: "threads (pool s) = []" by simp
    from c that have "int (initThreadSize (pool s)) \<le> curThreadSize (pool s)"
      by (simp add: count_inv_def)
    with that have "0 < curThreadSize (pool s)" by simp
    with d t that have "taskQue (pool s) = []"
      by (auto simp add: drain_inv_def)
    with f show ?thesis
      by (simp add: fifo_inv_def)
  qed
  from 1 2 3 show ?thesis by blast
qed

theorem C1_shutdown_drains_witness:
  "reachable drained_done \<and> owner drained_done = D_returned \<and> started drained_done
   \<and> 0 < initThreadSize (pool drained_done) \<and> 0 < length (workers drained_done)
   \<and> accepted drained_done = [Some 0]
   \<and> threads (pool drained_done) = [] \<and> pc (workers drained_done ! 0) = W_exited
   \<and> taskQue (pool drained_done) = [] \<and> taken drained_done = accepted drained_done
   \<and> reachable ifrun_state \<and> 0 < length (workers ifrun_state)
   \<and> pc (workers ifrun_state ! 0) = W_ifrun \<and> taskQue (pool ifrun_state) = []"
proof -
  have r1: "reachable drained_done"
    using reachable_run_from[OF reachable_init run_drained] .
  have r2: "reachable ifrun_state"
    using reachable_run_from[OF reachable_init run_ifrun] .
  have h1: "owner drained_done = D_returned" "started drained_done"
    "0 < initThreadSize (pool drained_done)" "0 < length (workers drained_done)"
    "accepted drained_done = [Some 0]"
    by (simp_all add: concrete_defs init_def ThreadPool_ctor_def)
  have h2: "0 < length (workers ifrun_state)" "pc (workers ifrun_state ! 0) = W_ifrun"
    by (simp_all add: concrete_defs init_def)
  from C1_shutdown_drains[OF r1] h1
  have c1: "threads (pool drained_done) = []" "pc (workers drained_done ! 0) = W_exited"
    "taskQue (pool drained_done) = []" "taken drained_done = accepted drained_done"
    by blast+
  from C1_shutdown_drains[OF r2] h2
  have c2: "taskQue (pool ifrun_state) = []"
    by blast
  from r1 r2 h1 h2 c1 c2 show ?thesis by simp
qed

text \<open>
  C8 on the code: the cached pool, destroyed when its one thread has been idle for
  ten seconds and takes the mutex again, at the deadline of its \<open>wait_for\<close>, while the
  destructor is in the \<open>wait\<close> on \<open>exitCond_\<close> of line 43. The thread leaves by line 195: it erases
  itself from \<open>threads_\<close>, which is empty then, and notifies nothing, where the exit of
  line 170 would have notified \<open>exitCond_\<close>. The destructor stays in its \<open>wait\<close>, and no
  thread is left that could make a step.
\<close>

theorem C8_idle_exit_without_notify:
  "run_from init retiring_trace = Some retiring_state
   \<and> owner retiring_state = D_wait \<and> threads (pool retiring_state) = [0]
   \<and> now retiring_state = 10 * second
   \<and> pc (workers retiring_state ! 0) = W_woken_for (10 * second)
   \<and> exit_idle 0 (now retiring_state) 0 (pool retiring_state)
       = Some (pool stuck_state, [])
   \<and> snd (exit_not_running 0 (pool retiring_state)) = [ExitCond]
   \<and> step (Worker_step 0) retiring_state = Some stuck_state
   \<and> threads (pool stuck_state) = [] \<and> owner stuck_state = D_wait
   \<and> length (workers stuck_state) = 1 \<and> pc (workers stuck_state ! 0) = W_exited
   \<and> owner_step stuck_state = None
   \<and> worker_step 0 stuck_state = None \<and> worker_wakes 0 stuck_state = None"
  using run_retiring
  by (simp add: concrete_defs run_defs)

end
